theory Spec2Isabelle
  imports Main "HOL-Library.Word" "HOL-Library.Signed_Division"
begin

unbundle bit_operations_syntax

section \<open>The SPARKLE512 permutation\<close>

text \<open>
  The header \<^verbatim>\<open>sparkle512.hpp\<close> and the two older sources (the standalone
  \<^verbatim>\<open>sparkle_512_permutation\<close> and the class \<^verbatim>\<open>Sparkle512EDF\<close>) start with the
  same two macros and the same table of round constants:
  \<^verbatim>\<open>#define ROT(x, n) (((x) >> (n)) | ((x) << (32-(n))))\<close>,
  \<^verbatim>\<open>#define ELL(x) (ROT(((x) ^ ((x) << 16)), 16))\<close>.
  The operand is always a \<^verbatim>\<open>uint32_t\<close>, so both shifts are shifts of a 32-bit
  unsigned value, and every shift amount used lies in 1..31.
\<close>

definition ROT :: "32 word \<Rightarrow> nat \<Rightarrow> 32 word" where
  "ROT x n = drop_bit n x OR push_bit (32 - n) x"

definition ELL :: "32 word \<Rightarrow> 32 word" where
  "ELL x = ROT (x XOR push_bit 16 x) 16"

definition N_BRANCHES :: nat where
  "N_BRANCHES = 8"

definition MAX_BRANCHES :: nat where
  "MAX_BRANCHES = 8"

definition RCON :: "32 word list" where
  "RCON = [0xB7E15162, 0xBF715880, 0x38B4DA56, 0x324E7738,
           0xBB1185EB, 0x4F7C7B57, 0xCFBFA1C8, 0xC2B3293D]"

text \<open>
  The state is an array of sixteen 32-bit words, modelled as a list; every index the
  permutation uses is a constant below 16. The body of the ARXBOX loop, for the branch
  that starts at word \<open>j\<close>: twelve assignments, each reading the array as the previous
  one left it.
\<close>

definition arxbox :: "nat \<Rightarrow> 32 word list \<Rightarrow> 32 word list" where
  "arxbox j st0 =
     (let rc = RCON ! (j div 2);
          st = st0[j := st0 ! j + ROT (st0 ! (j + 1)) 31];
          st = st[j + 1 := st ! (j + 1) XOR ROT (st ! j) 24];
          st = st[j := st ! j XOR rc];
          st = st[j := st ! j + ROT (st ! (j + 1)) 17];
          st = st[j + 1 := st ! (j + 1) XOR ROT (st ! j) 17];
          st = st[j := st ! j XOR rc];
          st = st[j := st ! j + st ! (j + 1)];
          st = st[j + 1 := st ! (j + 1) XOR ROT (st ! j) 31];
          st = st[j := st ! j XOR rc];
          st = st[j := st ! j + ROT (st ! (j + 1)) 24];
          st = st[j + 1 := st ! (j + 1) XOR ROT (st ! j) 16];
          st = st[j := st ! j XOR rc]
      in st)"

text \<open>\<^verbatim>\<open>for(j = 0; j < 2*nb; j += 2) { ... }\<close>, where \<open>nb\<close> is \<^verbatim>\<open>N_BRANCHES\<close> in the
  class and the local \<^verbatim>\<open>brans\<close> in the two older sources.\<close>

function arxbox_layer :: "nat \<Rightarrow> nat \<Rightarrow> 32 word list \<Rightarrow> 32 word list" where
  "arxbox_layer nb j st =
     (if j < 2 * nb then arxbox_layer nb (j + 2) (arxbox j st) else st)"
  by pat_completeness auto
termination
  by (relation "measure (\<lambda>(nb, j, st). 2 * nb - j)") auto

declare arxbox_layer.simps [simp del]

text \<open>\<^verbatim>\<open>for(j = 2; j < nb; j += 2) { tmpx ^= state[j]; tmpy ^= state[j+1]; }\<close>\<close>

function xor_branches :: "nat \<Rightarrow> nat \<Rightarrow> 32 word list \<Rightarrow> 32 word \<times> 32 word \<Rightarrow> 32 word \<times> 32 word" where
  "xor_branches nb j st (tmpx, tmpy) =
     (if j < nb then xor_branches nb (j + 2) st (tmpx XOR st ! j, tmpy XOR st ! (j + 1))
      else (tmpx, tmpy))"
  by pat_completeness auto
termination
  by (relation "measure (\<lambda>(nb, j, st, t). nb - j)") auto

declare xor_branches.simps [simp del]

text \<open>The branch rotation: \<^verbatim>\<open>for (j = 2; j < nb; j += 2) { ... }\<close>, four assignments
  in the order of the source.\<close>

function feistel_swap :: "nat \<Rightarrow> nat \<Rightarrow> 32 word \<Rightarrow> 32 word \<Rightarrow> 32 word list \<Rightarrow> 32 word list" where
  "feistel_swap nb j tmpx tmpy st0 =
     (if j < nb then
        (let st = st0[j - 2 := st0 ! (j + nb) XOR st0 ! j XOR tmpy];
             st = st[j + nb := st ! j];
             st = st[j - 1 := st ! (j + nb + 1) XOR st ! (j + 1) XOR tmpx];
             st = st[j + nb + 1 := st ! (j + 1)]
         in feistel_swap nb (j + 2) tmpx tmpy st)
      else st0)"
  by pat_completeness auto
termination
  by (relation "measure (\<lambda>(nb, j, tmpx, tmpy, st). nb - j)") auto

declare feistel_swap.simps [simp del]

definition linear_layer :: "nat \<Rightarrow> 32 word list \<Rightarrow> 32 word list" where
  "linear_layer nb st0 =
     (let x0 = st0 ! 0;
          y0 = st0 ! 1;
          (tmpx, tmpy) = xor_branches nb 2 st0 (x0, y0);
          tmpx = ELL tmpx;
          tmpy = ELL tmpy;
          st = feistel_swap nb 2 tmpx tmpy st0;
          st = st[nb - 2 := st ! nb XOR x0 XOR tmpy];
          st = st[nb := x0];
          st = st[nb - 1 := st ! (nb + 1) XOR y0 XOR tmpx];
          st = st[nb + 1 := y0]
      in st)"


subsection \<open>The three step loops\<close>

text \<open>
  \<^verbatim>\<open>Sparkle512core::_permute\<close>: the step counter \<open>i\<close> and the bound \<^verbatim>\<open>steps\<close> are
  \<^verbatim>\<open>unsigned int\<close>, the comparison is unsigned, and \<^verbatim>\<open>i % N_BRANCHES\<close> is an
  unsigned remainder. \<open>i + 1\<close> cannot wrap, because \<open>i < steps\<close> holds when it is
  computed.
\<close>

lemma unat_succ_of_less:
  fixes i n :: "32 word"
  assumes "i < n"
  shows "unat (i + 1) = unat i + 1"
proof -
  from assms have "unat i < unat n"
    by (simp add: word_less_nat_alt)
  moreover have "unat n < 2 ^ 32"
    using unsigned_less [of n, where 'a = nat] by simp
  ultimately have "unat i + unat (1 :: 32 word) < 2 ^ LENGTH(32)"
    by simp
  then have "unat (i + 1) = unat i + unat (1 :: 32 word)"
    by (simp only: unat_add_lem)
  then show ?thesis
    by simp
qed

definition permute_round :: "32 word \<Rightarrow> 32 word list \<Rightarrow> 32 word list" where
  "permute_round i st0 =
     (let st = st0[1 := st0 ! 1 XOR RCON ! (unat i mod N_BRANCHES)];
          st = st[3 := st ! 3 XOR i];
          st = arxbox_layer N_BRANCHES 0 st
      in linear_layer N_BRANCHES st)"

function permute_loop :: "32 word \<Rightarrow> 32 word \<Rightarrow> 32 word list \<Rightarrow> 32 word list" where
  "permute_loop n i st =
     (if i < n then permute_loop n (i + 1) (permute_round i st) else st)"
  by pat_completeness auto
termination
proof (relation "measure (\<lambda>(n, i, st). unat n - unat i)")
  show "wf (measure (\<lambda>(n :: 32 word, i :: 32 word, st :: 32 word list). unat n - unat i))"
    by simp
next
  fix n i :: "32 word" and st :: "32 word list"
  assume "i < n"
  then have "unat i < unat n"
    by (simp add: word_less_nat_alt)
  moreover from \<open>i < n\<close> have "unat (i + 1) = unat i + 1"
    by (rule unat_succ_of_less)
  ultimately show "((n, i + 1, permute_round i st), (n, i, st))
      \<in> measure (\<lambda>(n, i, st). unat n - unat i)"
    by simp
qed

declare permute_loop.simps [simp del]

text \<open>
  \<^verbatim>\<open>void sparkle_512_permutation(uint32_t * state, int steps)\<close>: here \<open>i\<close> and
  \<^verbatim>\<open>steps\<close> are \<^verbatim>\<open>int\<close>. They are modelled as 32-bit words read as two's
  complement: the comparison \<open>i < steps\<close> is signed, \<^verbatim>\<open>i % MAX_BRANCHES\<close> is C's
  truncating remainder on \<^verbatim>\<open>int\<close>, and \<^verbatim>\<open>state[3] ^= i\<close> converts \<open>i\<close> to
  \<^verbatim>\<open>uint32_t\<close>, which keeps its bits. The local \<^verbatim>\<open>brans\<close> is the constant 8.
\<close>

definition brans :: nat where
  "brans = 8"

definition sparkle_512_round :: "32 word \<Rightarrow> 32 word list \<Rightarrow> 32 word list" where
  "sparkle_512_round i st0 =
     (let st = st0[1 := st0 ! 1 XOR RCON ! nat (sint i smod int MAX_BRANCHES)];
          st = st[3 := st ! 3 XOR i];
          st = arxbox_layer brans 0 st
      in linear_layer brans st)"

lemma sint_succ_of_sless:
  fixes i n :: "32 word"
  assumes "i <s n"
  shows "sint (i + 1) = sint i + 1"
proof -
  from assms have lt: "sint i < sint n"
    by (simp add: word_sless_alt)
  have "sint n < 2 ^ 31"
    using sint_lt [of n] by simp
  moreover have "- (2 ^ 31) \<le> sint i"
    using sint_ge [of i] by simp
  ultimately have "- (2 ^ 31) \<le> sint i + 1" "sint i + 1 < 2 ^ 31"
    using lt by simp_all
  then have "signed_take_bit 31 (sint i + 1) = sint i + 1"
    by (simp add: signed_take_bit_int_eq_self)
  then show ?thesis
    by (simp add: sint_word_ariths)
qed

function sparkle_512_loop :: "32 word \<Rightarrow> 32 word \<Rightarrow> 32 word list \<Rightarrow> 32 word list" where
  "sparkle_512_loop n i st =
     (if i <s n then sparkle_512_loop n (i + 1) (sparkle_512_round i st) else st)"
  by pat_completeness auto
termination
proof (relation "measure (\<lambda>(n, i, st). nat (sint n - sint i))")
  show "wf (measure (\<lambda>(n :: 32 word, i :: 32 word, st :: 32 word list). nat (sint n - sint i)))"
    by simp
next
  fix n i :: "32 word" and st :: "32 word list"
  assume "i <s n"
  then have "sint i < sint n" "sint (i + 1) = sint i + 1"
    by (simp_all add: word_sless_alt sint_succ_of_sless)
  then show "((n, i + 1, sparkle_512_round i st), (n, i, st))
      \<in> measure (\<lambda>(n, i, st). nat (sint n - sint i))"
    by simp
qed

declare sparkle_512_loop.simps [simp del]

definition sparkle_512_permutation :: "32 word list \<Rightarrow> 32 word \<Rightarrow> 32 word list" where
  "sparkle_512_permutation st n = sparkle_512_loop n 0 st"

text \<open>
  The step loop of \<^verbatim>\<open>Sparkle512EDF::_update_state\<close>: unsigned counters again, the
  round constant indexed by \<^verbatim>\<open>i%MAX_BRANCHES\<close>, the layers bounded by \<^verbatim>\<open>brans\<close>.
  (The rest of \<^verbatim>\<open>_update_state\<close> copies the state bytes into the tank of that
  class; it is not part of the permutation.)
\<close>

definition update_state_round :: "32 word \<Rightarrow> 32 word list \<Rightarrow> 32 word list" where
  "update_state_round i st0 =
     (let st = st0[1 := st0 ! 1 XOR RCON ! (unat i mod MAX_BRANCHES)];
          st = st[3 := st ! 3 XOR i];
          st = arxbox_layer brans 0 st
      in linear_layer brans st)"

function update_state_loop :: "32 word \<Rightarrow> 32 word \<Rightarrow> 32 word list \<Rightarrow> 32 word list" where
  "update_state_loop n i st =
     (if i < n then update_state_loop n (i + 1) (update_state_round i st) else st)"
  by pat_completeness auto
termination
proof (relation "measure (\<lambda>(n, i, st). unat n - unat i)")
  show "wf (measure (\<lambda>(n :: 32 word, i :: 32 word, st :: 32 word list). unat n - unat i))"
    by simp
next
  fix n i :: "32 word" and st :: "32 word list"
  assume "i < n"
  then have "unat i < unat n"
    by (simp add: word_less_nat_alt)
  moreover from \<open>i < n\<close> have "unat (i + 1) = unat i + 1"
    by (rule unat_succ_of_less)
  ultimately show "((n, i + 1, update_state_round i st), (n, i, st))
      \<in> measure (\<lambda>(n, i, st). unat n - unat i)"
    by simp
qed

declare update_state_loop.simps [simp del]


section \<open>The class \<^verbatim>\<open>Sparkle512core\<close>\<close>

text \<open>
  The attributes of the class: \<^verbatim>\<open>unsigned int steps\<close>, the array of sixteen 32-bit words,
  the tank (a \<^verbatim>\<open>std::vector<bool>\<close>) and the cursor. The cursor is an
  \<^verbatim>\<open>unsigned int\<close>; it is modelled as a natural number, since it is only ever
  incremented after a read of the tank at that index, and a read outside the tank is
  already undefined.
\<close>

record Sparkle512core =
  steps :: "32 word"
  state :: "32 word list"
  entropy_tank :: "bool list"
  entropy_cursor :: nat

text \<open>
  C++ gives no meaning to an access outside an array or a vector, or to
  \<^verbatim>\<open>__builtin_clzll(0)\<close>. The model marks each such point with a value of the type
  \<open>ub\<close> and stops there; nothing is said about what a compiled program does
  afterwards.
\<close>

datatype ub = OutOfBounds | ClzOfZero

text \<open>The constructor: \<^verbatim>\<open>steps(0), state{{0}}, entropy_tank(0, false), entropy_cursor(0)\<close>.\<close>

definition Sparkle512core_new :: Sparkle512core where
  "Sparkle512core_new =
     \<lparr>steps = 0, state = replicate (2 * N_BRANCHES) 0, entropy_tank = [], entropy_cursor = 0\<rparr>"

text \<open>The method \<^verbatim>\<open>setup\<close> (the name is reserved in Isabelle, hence the prefix):
  \<^verbatim>\<open>steps = _steps; entropy_tank.assign(_output_rate, false);\<close>\<close>

definition Sparkle512core_setup :: "32 word \<Rightarrow> 32 word \<Rightarrow> Sparkle512core \<Rightarrow> Sparkle512core" where
  "Sparkle512core_setup steps_arg output_rate_arg c =
     c\<lparr>steps := steps_arg, entropy_tank := replicate (unat output_rate_arg) False\<rparr>"

definition permute :: "Sparkle512core \<Rightarrow> Sparkle512core" where
  "permute c = c\<lparr>state := permute_loop (steps c) 0 (state c)\<rparr>"

subsection \<open>Squeezing\<close>

text \<open>
  \<^verbatim>\<open>__builtin_parityll(x)\<close> is the number of 1-bits of \<open>x\<close> modulo 2. Its argument
  \<^verbatim>\<open>state[k] >> j\<close> is a 32-bit unsigned value, widened to 64 bits.
\<close>

function parity_int :: "int \<Rightarrow> bool" where
  "parity_int k = (if k \<le> 0 then False else (odd k \<noteq> parity_int (k div 2)))"
  by pat_completeness auto
termination
  by (relation "measure nat") auto

declare parity_int.simps [simp del]

definition builtin_parityll :: "64 word \<Rightarrow> bool" where
  "builtin_parityll x = parity_int (uint x)"

text \<open>\<^verbatim>\<open>for(unsigned int j=0; j<32; j++) entropy_tank[i+j] = __builtin_parityll(state[k] >> j);\<close>\<close>

function squeeze_bits :: "32 word list \<Rightarrow> nat \<Rightarrow> nat \<Rightarrow> nat \<Rightarrow> bool list \<Rightarrow> ub + bool list" where
  "squeeze_bits st k i j tank =
     (if j < 32 then
        (if i + j < length tank
         then squeeze_bits st k i (j + 1)
                (tank[i + j := builtin_parityll (ucast (drop_bit j (st ! k)))])
         else Inl OutOfBounds)
      else Inr tank)"
  by pat_completeness auto
termination
  by (relation "measure (\<lambda>(st, k, i, j, tank). 32 - j)") auto

declare squeeze_bits.simps [simp del]

text \<open>
  \<^verbatim>\<open>for (unsigned int i=0; i<entropy_tank.size(); i += 32) { k = i / 32; tmp = state[k]; ... }\<close>.
  The size \<open>n\<close> of the tank does not change in the loop. Reading \<^verbatim>\<open>state[k]\<close> needs
  \<open>k\<close> below 16.
\<close>

function squeeze_loop :: "nat \<Rightarrow> 32 word list \<Rightarrow> nat \<Rightarrow> bool list \<Rightarrow> ub + bool list" where
  "squeeze_loop n st i tank =
     (if i < n then
        (let k = i div 32 in
         if k < 2 * N_BRANCHES then
           (case squeeze_bits st k i 0 tank of
              Inl e \<Rightarrow> Inl e
            | Inr tank' \<Rightarrow> squeeze_loop n st (i + 32) tank')
         else Inl OutOfBounds)
      else Inr tank)"
  by pat_completeness auto
termination
  by (relation "measure (\<lambda>(n, st, i, tank). n - i)") auto

declare squeeze_loop.simps [simp del]

definition squeeze :: "Sparkle512core \<Rightarrow> ub + Sparkle512core" where
  "squeeze c =
     (case squeeze_loop (length (entropy_tank c)) (state c) 0 (entropy_tank c) of
        Inl e \<Rightarrow> Inl e
      | Inr tank \<Rightarrow> Inr (c\<lparr>entropy_tank := tank, entropy_cursor := 0\<rparr>))"

subsection \<open>Absorbing\<close>

text \<open>
  \<^verbatim>\<open>for(unsigned int j=0; j<4; j++) state[i >> 2] ^= ((uint32_t)byte_array[i + j]) << (8*j);\<close>
  reads the byte at \<open>i + j\<close> and writes the word at \<open>i >> 2\<close>.
\<close>

function absorb_bytes :: "8 word list \<Rightarrow> nat \<Rightarrow> nat \<Rightarrow> 32 word list \<Rightarrow> ub + 32 word list" where
  "absorb_bytes byte_array i j st =
     (if j < 4 then
        (if i + j < length byte_array \<and> i div 4 < 2 * N_BRANCHES
         then absorb_bytes byte_array i (j + 1)
                (st[i div 4 := st ! (i div 4) XOR push_bit (8 * j) (ucast (byte_array ! (i + j)))])
         else Inl OutOfBounds)
      else Inr st)"
  by pat_completeness auto
termination
  by (relation "measure (\<lambda>(byte_array, i, j, st). 4 - j)") auto

declare absorb_bytes.simps [simp del]

function absorb_loop :: "8 word list \<Rightarrow> nat \<Rightarrow> 32 word list \<Rightarrow> ub + 32 word list" where
  "absorb_loop byte_array i st =
     (if i < length byte_array then
        (case absorb_bytes byte_array i 0 st of
           Inl e \<Rightarrow> Inl e
         | Inr st' \<Rightarrow> absorb_loop byte_array (i + 4) st')
      else Inr st)"
  by pat_completeness auto
termination
  by (relation "measure (\<lambda>(byte_array, i, st). length byte_array - i)") auto

declare absorb_loop.simps [simp del]

definition xor_last :: "32 word \<Rightarrow> Sparkle512core \<Rightarrow> Sparkle512core" where
  "xor_last v c =
     c\<lparr>state := (state c)[2 * N_BRANCHES - 1 := state c ! (2 * N_BRANCHES - 1) XOR v]\<rparr>"

definition absorb :: "8 word list \<Rightarrow> Sparkle512core \<Rightarrow> ub + Sparkle512core" where
  "absorb byte_array c0 =
     (let c = xor_last 1 c0 in
      case absorb_loop byte_array 0 (state c) of
        Inl e \<Rightarrow> Inl e
      | Inr st \<Rightarrow>
          (let c = permute (c\<lparr>state := st\<rparr>);
               c = xor_last 2 c;
               c = permute c
           in squeeze c))"

subsection \<open>Fixed bit-length output\<close>

text \<open>
  \<^verbatim>\<open>result |= (1 << i)\<close>: the literal \<^verbatim>\<open>1\<close> is an \<^verbatim>\<open>int\<close>, so the shift is a 32-bit
  signed shift, and its result is converted to \<^verbatim>\<open>uint64_t\<close> by sign extension before
  the OR. For \<open>i < 31\<close> this is the single bit \<open>i\<close>. For \<open>i = 31\<close> the shifted value
  is \<^verbatim>\<open>INT_MIN\<close> (the build uses g++ with \<^verbatim>\<open>-std=c++17\<close>, where the value
  \<open>2^31\<close> is converted to \<^verbatim>\<open>int\<close> modulo \<open>2^32\<close>), so the OR sets every bit from
  31 to 63. For \<open>i \<ge> 32\<close> the C++ standard leaves the shift open; the build is for
  x86-64, whose 32-bit shift takes its count modulo 32, and the model follows the
  machine: the program goes on there, with bit \<open>i mod 32\<close>.
\<close>

definition int_one_shl :: "nat \<Rightarrow> 32 word" where
  "int_one_shl i = push_bit (i mod 32) 1"

definition or_shifted_one :: "64 word \<Rightarrow> nat \<Rightarrow> 64 word" where
  "or_shifted_one result i = result OR scast (int_one_shl i)"

text \<open>The refill at the top of the loop body:
  \<^verbatim>\<open>if (entropy_cursor == entropy_tank.size()) { _permute(); _squeeze(); }\<close>\<close>

definition refill_if_empty :: "Sparkle512core \<Rightarrow> ub + Sparkle512core" where
  "refill_if_empty c =
     (if entropy_cursor c = length (entropy_tank c) then squeeze (permute c) else Inr c)"

text \<open>One pass through the body of the loop of \<^verbatim>\<open>get_n_bit_unsigned_integer\<close>.\<close>

definition get_bit_step :: "nat \<Rightarrow> 64 word \<Rightarrow> Sparkle512core \<Rightarrow> ub + 64 word \<times> Sparkle512core" where
  "get_bit_step i result c =
     (case refill_if_empty c of
        Inl e \<Rightarrow> Inl e
      | Inr c1 \<Rightarrow>
          if entropy_cursor c1 < length (entropy_tank c1) then
            Inr (if entropy_tank c1 ! entropy_cursor c1 then or_shifted_one result i else result,
                 c1\<lparr>entropy_cursor := entropy_cursor c1 + 1\<rparr>)
          else Inl OutOfBounds)"

function get_bits_loop :: "nat \<Rightarrow> nat \<Rightarrow> 64 word \<Rightarrow> Sparkle512core \<Rightarrow> ub + 64 word \<times> Sparkle512core" where
  "get_bits_loop n i result c =
     (if i < n then
        (case get_bit_step i result c of
           Inl e \<Rightarrow> Inl e
         | Inr (result', c') \<Rightarrow> get_bits_loop n (i + 1) result' c')
      else Inr (result, c))"
  by pat_completeness auto
termination
  by (relation "measure (\<lambda>(n, i, result, c). n - i)") auto

declare get_bits_loop.simps [simp del]

definition get_n_bit_unsigned_integer :: "nat \<Rightarrow> Sparkle512core \<Rightarrow> ub + 64 word \<times> Sparkle512core" where
  "get_n_bit_unsigned_integer n c = get_bits_loop n 0 0 c"

subsection \<open>Rejection sampling\<close>

text \<open>
  \<^verbatim>\<open>__builtin_clzll(x)\<close> is the number of leading 0-bits of the 64-bit value \<open>x\<close>,
  counted from the most significant bit, and is undefined for \<open>x = 0\<close>.
\<close>

primrec leading_zeros :: "64 word \<Rightarrow> nat \<Rightarrow> nat" where
  "leading_zeros x 0 = 0"
| "leading_zeros x (Suc k) = (if bit x k then 0 else Suc (leading_zeros x k))"

definition builtin_clzll :: "64 word \<Rightarrow> ub + nat" where
  "builtin_clzll x = (if x = 0 then Inl ClzOfZero else Inr (leading_zeros x 64))"

text \<open>\<^verbatim>\<open>bit_length = 64 - __builtin_clzll(upper_bound - lower_bound)\<close>\<close>

definition bit_length :: "64 word \<Rightarrow> 64 word \<Rightarrow> ub + nat" where
  "bit_length lower_bound upper_bound =
     (case builtin_clzll (upper_bound - lower_bound) of
        Inl e \<Rightarrow> Inl e
      | Inr z \<Rightarrow> Inr (64 - z))"

text \<open>
  The \<^verbatim>\<open>do { output = get_n_bit_unsigned_integer(bit_length); } while (output >= range);\<close>
  loop may run forever; \<open>None\<close> is the value of a run that does not return.
\<close>

partial_function (option) rejection_loop ::
    "nat \<Rightarrow> 64 word \<Rightarrow> Sparkle512core \<Rightarrow> (ub + 64 word \<times> Sparkle512core) option" where
  "rejection_loop bl rng c =
     (case get_n_bit_unsigned_integer bl c of
        Inl e \<Rightarrow> Some (Inl e)
      | Inr (output, c') \<Rightarrow>
          if output \<ge> rng then rejection_loop bl rng c' else Some (Inr (output, c')))"

declare rejection_loop.simps [code]

definition get_unsigned_integer_in_range ::
    "64 word \<Rightarrow> 64 word \<Rightarrow> Sparkle512core \<Rightarrow> (ub + 64 word \<times> Sparkle512core) option" where
  "get_unsigned_integer_in_range lower_bound upper_bound c =
     (case bit_length lower_bound upper_bound of
        Inl e \<Rightarrow> Some (Inl e)
      | Inr bl \<Rightarrow>
          (let rng = upper_bound - lower_bound in
           case rejection_loop bl rng c of
             None \<Rightarrow> None
           | Some (Inl e) \<Rightarrow> Some (Inl e)
           | Some (Inr (output, c')) \<Rightarrow> Some (Inr (lower_bound + output, c'))))"


section \<open>The Python wrappers\<close>

text \<open>
  A call of a wrapper method either returns a value, or raises a Python exception, or
  runs into undefined behaviour of the C++ core. In the first two cases the generator
  is still there afterwards, and the model records it. The wrappers raise the plain
  \<^verbatim>\<open>Exception\<close> with a message; \<^verbatim>\<open>OverflowError\<close> is what the conversion of a
  Python integer to a C++ unsigned type raises when the integer does not fit.
\<close>

datatype pyexn = Exception string | OverflowError

datatype ('a, 'g) outcome = Returned 'a 'g | Raised pyexn 'g | Undefined ub

record SparkleRG =
  core :: Sparkle512core

text \<open>
  \<^verbatim>\<open>SparkleRG.__init__(self, steps, output_rate)\<close> builds the core and calls
  \<^verbatim>\<open>setup\<close>. The two arguments are taken as the \<^verbatim>\<open>unsigned int\<close> values that
  reach \<^verbatim>\<open>setup\<close>.
\<close>

definition SparkleRG_init :: "32 word \<Rightarrow> 32 word \<Rightarrow> SparkleRG" where
  "SparkleRG_init steps_arg output_rate_arg =
     \<lparr>core = Sparkle512core_setup steps_arg output_rate_arg Sparkle512core_new\<rparr>"

text \<open>
  \<^verbatim>\<open>to_absorb = x + bytearray([0] * (48 - len(x)))\<close>: in Python a list multiplied by a
  negative number is empty, which is what the truncating subtraction on \<open>nat\<close> gives.
\<close>

definition SparkleRG_absorb :: "8 word list \<Rightarrow> SparkleRG \<Rightarrow> (unit, SparkleRG) outcome" where
  "SparkleRG_absorb x g =
     (let to_absorb = x @ replicate (48 - length x) 0 in
      case absorb to_absorb (core g) of
        Inl e \<Rightarrow> Undefined e
      | Inr c \<Rightarrow> Returned () (g\<lparr>core := c\<rparr>))"

text \<open>
  \<^verbatim>\<open>if n > 64: raise Exception(...)\<close>, then the call of the core, where \<open>n\<close> is
  converted to \<^verbatim>\<open>unsigned int\<close>.
\<close>

definition SparkleRG_get_n_bit_unsigned_integer :: "int \<Rightarrow> SparkleRG \<Rightarrow> (int, SparkleRG) outcome" where
  "SparkleRG_get_n_bit_unsigned_integer n g =
     (if n > 64 then Raised (Exception ''Cannot return integers more than 64-bit long'') g
      else if n < 0 then Raised OverflowError g
      else case get_n_bit_unsigned_integer (nat n) (core g) of
             Inl e \<Rightarrow> Undefined e
           | Inr (v, c) \<Rightarrow> Returned (uint v) (g\<lparr>core := c\<rparr>))"

text \<open>
  \<^verbatim>\<open>SparkleRG.__call__(self, lower, upper)\<close>: the comparison is on Python integers;
  both are then converted to \<^verbatim>\<open>uint64_t\<close>.
\<close>

definition SparkleRG_call :: "int \<Rightarrow> int \<Rightarrow> SparkleRG \<Rightarrow> (int, SparkleRG) outcome option" where
  "SparkleRG_call lower upper g =
     (if upper \<le> lower
      then Some (Raised (Exception ''`upper` must be strictly higher than `lower`'') g)
      else if lower < 0 \<or> 2 ^ 64 \<le> lower \<or> upper < 0 \<or> 2 ^ 64 \<le> upper
      then Some (Raised OverflowError g)
      else case get_unsigned_integer_in_range (word_of_int lower) (word_of_int upper) (core g) of
             None \<Rightarrow> None
           | Some (Inl e) \<Rightarrow> Some (Undefined e)
           | Some (Inr (v, c)) \<Rightarrow> Some (Returned (uint v) (g\<lparr>core := c\<rparr>)))"

text \<open>
  The module \<^verbatim>\<open>sparklyRG\<close> wraps the core a second time. Its \<^verbatim>\<open>SparkleRG.absorb\<close>
  pads with the ASCII characters \<^verbatim>\<open>b"1"\<close> and \<^verbatim>\<open>b"0"\<close>, and the class
  \<^verbatim>\<open>EschRG\<close> built on it keeps the list of absorbed blocks and refuses a block
  longer than 31 bytes.
\<close>

definition wrapper_absorb :: "8 word list \<Rightarrow> SparkleRG \<Rightarrow> (unit, SparkleRG) outcome" where
  "wrapper_absorb x g =
     (let to_absorb = x @ [0x31] @ replicate (63 - length x) 0x30 in
      case absorb to_absorb (core g) of
        Inl e \<Rightarrow> Undefined e
      | Inr c \<Rightarrow> Returned () (g\<lparr>core := c\<rparr>))"

record EschRG =
  rg :: SparkleRG
  absorbed :: "8 word list list"

definition EschRG_absorb_block :: "8 word list \<Rightarrow> EschRG \<Rightarrow> (unit, EschRG) outcome" where
  "EschRG_absorb_block to_absorb e =
     (if length to_absorb > 31
      then Raised (Exception ''block is too big, max length is 31 bytes'') e
      else (let e1 = e\<lparr>absorbed := absorbed e @ [to_absorb]\<rparr> in
            case wrapper_absorb to_absorb (rg e1) of
              Returned u g \<Rightarrow> Returned u (e1\<lparr>rg := g\<rparr>)
            | Raised x g \<Rightarrow> Raised x (e1\<lparr>rg := g\<rparr>)
            | Undefined u \<Rightarrow> Undefined u))"

section \<open>Sessions\<close>








text \<open>The successive draws of a rejection loop: \<open>nth_draw bl k c\<close> is the result of
  the call of \<^verbatim>\<open>get_n_bit_unsigned_integer(bl)\<close> that follows \<open>k\<close> earlier ones.\<close>

fun nth_draw :: "nat \<Rightarrow> nat \<Rightarrow> Sparkle512core \<Rightarrow> ub + 64 word \<times> Sparkle512core" where
  "nth_draw bl 0 c = get_n_bit_unsigned_integer bl c"
| "nth_draw bl (Suc k) c =
     (case get_n_bit_unsigned_integer bl c of
        Inl e \<Rightarrow> Inl e
      | Inr (v, c') \<Rightarrow> nth_draw bl k c')"

text \<open>
  \<open>first_accepted bl rng c y\<close>: if the result \<open>y\<close> of a rejection loop started in
  \<open>c\<close> is a value, it is the result of some draw, that draw is below \<open>rng\<close>, and
  every earlier draw gave a value that is not.
\<close>

definition first_accepted ::
    "nat \<Rightarrow> 64 word \<Rightarrow> Sparkle512core \<Rightarrow> (ub + 64 word \<times> Sparkle512core) \<Rightarrow> bool" where
  "first_accepted bl rng c y \<longleftrightarrow>
     (\<forall>v c'. y = Inr (v, c') \<longrightarrow>
        (\<exists>k. nth_draw bl k c = Inr (v, c') \<and> v < rng
           \<and> (\<forall>j < k. \<exists>vj cj. nth_draw bl j c = Inr (vj, cj) \<and> rng \<le> vj)))"

section \<open>The operations as the specification words them\<close>

text \<open>
  The specification describes \<open>absorb\<close> on 32-bit words: the block is read as
  little-endian 32-bit chunks, and chunk \<open>k\<close> is XORed into state word \<open>k\<close>. A
  payload shorter than the block is first padded with zero bytes.
\<close>

definition zero_pad :: "nat \<Rightarrow> 8 word list \<Rightarrow> 8 word list" where
  "zero_pad w x = x @ replicate (w - length x) 0"

definition le32 :: "8 word \<Rightarrow> 8 word \<Rightarrow> 8 word \<Rightarrow> 8 word \<Rightarrow> 32 word" where
  "le32 b0 b1 b2 b3 =
     ucast b0 OR push_bit 8 (ucast b1) OR push_bit 16 (ucast b2) OR push_bit 24 (ucast b3)"

definition chunk :: "8 word list \<Rightarrow> nat \<Rightarrow> 32 word" where
  "chunk bs k = le32 (bs ! (4 * k)) (bs ! (4 * k + 1)) (bs ! (4 * k + 2)) (bs ! (4 * k + 3))"

definition xor_chunks :: "8 word list \<Rightarrow> 32 word list \<Rightarrow> 32 word list" where
  "xor_chunks bs st =
     map (\<lambda>k. if k < length bs div 4 then st ! k XOR chunk bs k else st ! k) [0..<length st]"

text \<open>One tank unit, as the specification words the squeeze: the parity of the
  selected state word shifted into position.\<close>

definition tank_unit :: "32 word list \<Rightarrow> nat \<Rightarrow> bool" where
  "tank_unit st u = builtin_parityll (ucast (drop_bit (u mod 32) (st ! (u div 32))))"

definition absorb_spec :: "8 word list \<Rightarrow> Sparkle512core \<Rightarrow> ub + Sparkle512core" where
  "absorb_spec block c =
     (let c1 = xor_last 1 c;
          c2 = c1\<lparr>state := xor_chunks block (state c1)\<rparr>;
          c3 = permute c2;
          c4 = xor_last 2 c3;
          c5 = permute c4
      in squeeze c5)"

section \<open>Rejected arguments\<close>

text \<open>
  Claim C8. \<^verbatim>\<open>get_n_bit_unsigned_integer(n)\<close> with \<open>n > 64\<close> and a call
  \<^verbatim>\<open>(lower, upper)\<close> with \<open>upper \<le> lower\<close> raise an exception at once, and the
  generator after the rejected call is the generator before it: state words, tank and
  cursor are untouched.
\<close>

theorem invalid_arguments_rejected:
  "(n > 64 \<longrightarrow>
      (\<exists>msg. SparkleRG_get_n_bit_unsigned_integer n g = Raised (Exception msg) g))
   \<and> (upper \<le> lower \<longrightarrow>
      (\<exists>msg. SparkleRG_call lower upper g = Some (Raised (Exception msg) g)))"
  by (simp add: SparkleRG_get_n_bit_unsigned_integer_def SparkleRG_call_def)

theorem invalid_arguments_rejected_witness:
  "(\<exists>msg. SparkleRG_get_n_bit_unsigned_integer 65 (SparkleRG_init 8 256)
       = Raised (Exception msg) (SparkleRG_init 8 256))
   \<and> (\<exists>msg. SparkleRG_call 5 5 (SparkleRG_init 8 256)
       = Some (Raised (Exception msg) (SparkleRG_init 8 256)))
   \<and> (\<exists>msg. SparkleRG_call 5 3 (SparkleRG_init 8 256)
       = Some (Raised (Exception msg) (SparkleRG_init 8 256)))"
  using invalid_arguments_rejected [of 65 "SparkleRG_init 8 256" 5 5]
        invalid_arguments_rejected [of 65 "SparkleRG_init 8 256" 3 5]
  by simp

section \<open>The three permutations agree\<close>

lemma nonneg_sint_uint:
  fixes i :: "32 word"
  assumes "0 \<le> sint i"
  shows "sint i = uint i"
proof -
  have "sint i < 2 ^ 31"
    using sint_lt [of i] by simp
  then have "sint i < 2 ^ 32"
    by simp
  then have "take_bit 32 (sint i) = sint i"
    using assms by (simp add: take_bit_int_eq_self)
  then show ?thesis
    using uint_sint [of i] by simp
qed

lemma signed_index_eq:
  fixes i :: "32 word"
  assumes "0 \<le> sint i"
  shows "nat (sint i smod int MAX_BRANCHES) = unat i mod N_BRANCHES"
proof -
  have "sint i smod 8 = sint i mod 8"
  proof (cases "sint i = 0")
    case True
    then show ?thesis by simp
  next
    case False
    then have "0 < sint i"
      using assms by simp
    then show ?thesis
      by (simp add: smod_int_alt_def)
  qed
  also have "\<dots> = uint i mod 8"
    using assms by (simp add: nonneg_sint_uint)
  finally have "nat (sint i smod 8) = nat (uint i mod 8)"
    by simp
  also have "\<dots> = unat i mod 8"
    by (simp add: nat_mod_distrib)
  finally show ?thesis
    by (simp add: MAX_BRANCHES_def N_BRANCHES_def)
qed

lemma sparkle_512_round_eq:
  fixes i :: "32 word"
  assumes "0 \<le> sint i"
  shows "sparkle_512_round i st = permute_round i st"
  using signed_index_eq [OF assms]
  by (simp add: sparkle_512_round_def permute_round_def brans_def N_BRANCHES_def)

lemma update_state_round_eq: "update_state_round i st = permute_round i st"
  by (simp add: update_state_round_def permute_round_def brans_def N_BRANCHES_def MAX_BRANCHES_def)

lemma update_state_loop_eq: "update_state_loop n i st = permute_loop n i st"
proof (induction n i st rule: permute_loop.induct)
  case (1 n i st)
  then show ?case
    by (subst update_state_loop.simps, subst permute_loop.simps)
       (simp add: update_state_round_eq)
qed

lemma sless_iff_less_nonneg:
  fixes i n :: "32 word"
  assumes "0 \<le> sint i" "0 \<le> sint n"
  shows "i <s n \<longleftrightarrow> i < n"
  using assms by (simp add: word_sless_alt word_less_def nonneg_sint_uint)

lemma sparkle_512_loop_eq:
  fixes i n :: "32 word"
  assumes "0 \<le> sint n" "0 \<le> sint i"
  shows "sparkle_512_loop n i st = permute_loop n i st"
  using assms
proof (induction n i st rule: permute_loop.induct)
  case (1 n i st)
  show ?case
  proof (cases "i < n")
    case True
    then have s: "i <s n"
      using 1 by (simp add: sless_iff_less_nonneg)
    then have "0 \<le> sint (i + 1)"
      using 1 by (simp add: sint_succ_of_sless)
    then have "sparkle_512_loop n (i + 1) (permute_round i st)
        = permute_loop n (i + 1) (permute_round i st)"
      using 1 True by simp
    then show ?thesis
      using True s 1
      by (subst sparkle_512_loop.simps, subst permute_loop.simps)
         (simp add: sparkle_512_round_eq)
  next
    case False
    then have "\<not> i <s n"
      using 1 by (simp add: sless_iff_less_nonneg)
    then show ?thesis
      using False
      by (subst sparkle_512_loop.simps, subst permute_loop.simps) simp
  qed
qed

text \<open>
  Claim C10. For every state and every step count \<open>s\<close> that both parameter types can
  hold (\<^verbatim>\<open>sparkle_512_permutation\<close> takes an \<^verbatim>\<open>int\<close>, the two classes hold an
  \<^verbatim>\<open>unsigned int\<close>, so \<open>0 \<le> s < 2^31\<close>), the standalone permutation, the
  \<^verbatim>\<open>_permute\<close> of \<^verbatim>\<open>Sparkle512core\<close> with \<^verbatim>\<open>steps = s\<close> and the step loop of
  \<^verbatim>\<open>Sparkle512EDF::_update_state\<close> with \<^verbatim>\<open>steps = s\<close> compute the same state.
\<close>

theorem permutations_agree:
  fixes s :: "32 word"
  assumes "0 \<le> sint s"
  shows "state (permute (c\<lparr>steps := s, state := st\<rparr>)) = sparkle_512_permutation st s
       \<and> update_state_loop s 0 st = sparkle_512_permutation st s"
  using assms
  by (simp add: permute_def sparkle_512_permutation_def sparkle_512_loop_eq update_state_loop_eq)

theorem permutations_agree_witness:
  "0 \<le> sint (8 :: 32 word)
   \<and> state (permute (Sparkle512core_new\<lparr>steps := 8, state := replicate 16 0\<rparr>))
       = sparkle_512_permutation (replicate 16 0) 8
   \<and> update_state_loop 8 0 (replicate 16 0) = sparkle_512_permutation (replicate 16 0) 8"
  using permutations_agree [where s = 8 and c = Sparkle512core_new and st = "replicate 16 0"]
  by simp

section \<open>What squeeze and the byte loop compute\<close>

lemma squeeze_bits_result:
  assumes "i + 32 \<le> length tank" "j \<le> 32"
  shows "\<exists>t. squeeze_bits st k i j tank = Inr t \<and> length t = length tank
    \<and> (\<forall>u < length tank. t ! u =
          (if i + j \<le> u \<and> u < i + 32
           then builtin_parityll (ucast (drop_bit (u - i) (st ! k))) else tank ! u))"
  using assms
proof (induction "32 - j" arbitrary: j tank)
  case 0
  then have "j = 32" by simp
  then show ?case
    by (subst squeeze_bits.simps) auto
next
  case (Suc m)
  then have j: "j < 32" by simp
  let ?tank = "tank[i + j := builtin_parityll (ucast (drop_bit j (st ! k)))]"
  have "m = 32 - (j + 1)" using Suc by simp
  moreover have "i + 32 \<le> length ?tank" using Suc by simp
  moreover have "j + 1 \<le> 32" using j by simp
  ultimately obtain t where t: "squeeze_bits st k i (j + 1) ?tank = Inr t"
      "length t = length ?tank"
      "\<forall>u < length ?tank. t ! u =
          (if i + (j + 1) \<le> u \<and> u < i + 32
           then builtin_parityll (ucast (drop_bit (u - i) (st ! k))) else ?tank ! u)"
    using Suc.hyps(1) [of "j + 1" ?tank] by blast
  have "squeeze_bits st k i j tank = Inr t"
    using j Suc.prems t(1) by (subst squeeze_bits.simps) simp
  moreover have "length t = length tank"
    using t(2) by simp
  moreover have "t ! u =
          (if i + j \<le> u \<and> u < i + 32
           then builtin_parityll (ucast (drop_bit (u - i) (st ! k))) else tank ! u)"
    if "u < length tank" for u
  proof (cases "u = i + j")
    case True
    then show ?thesis using t(3) that j by simp
  next
    case False
    then show ?thesis using t(3) that by (auto simp: nth_list_update)
  qed
  ultimately show ?case by blast
qed

lemma squeeze_loop_result:
  assumes "n = length tank" "32 dvd n" "n \<le> 512" "32 dvd i" "i \<le> n"
  shows "\<exists>t. squeeze_loop n st i tank = Inr t \<and> length t = n
    \<and> (\<forall>u < n. t ! u = (if i \<le> u then tank_unit st u else tank ! u))"
  using assms
proof (induction "n - i" arbitrary: i tank rule: less_induct)
  case less
  show ?case
  proof (cases "i < n")
    case False
    then have "i = n" using less.prems by simp
    then show ?thesis
      using less.prems by (subst squeeze_loop.simps) simp
  next
    case True
    from less.prems True have le: "i + 32 \<le> n"
      by (auto elim!: dvdE)
    then have k: "i div 32 < 2 * N_BRANCHES"
      using less.prems by (simp add: N_BRANCHES_def)
    obtain t1 where t1: "squeeze_bits st (i div 32) i 0 tank = Inr t1"
        "length t1 = length tank"
        "\<forall>u < length tank. t1 ! u =
          (if i + 0 \<le> u \<and> u < i + 32
           then builtin_parityll (ucast (drop_bit (u - i) (st ! (i div 32)))) else tank ! u)"
      using squeeze_bits_result [of i tank 0 st "i div 32"] le less.prems by auto
    have "n - (i + 32) < n - i" using True by simp
    moreover have "n = length t1" using t1 less.prems by simp
    moreover have "32 dvd (i + 32)" using less.prems by simp
    ultimately obtain t where t: "squeeze_loop n st (i + 32) t1 = Inr t" "length t = n"
        "\<forall>u < n. t ! u = (if i + 32 \<le> u then tank_unit st u else t1 ! u)"
      using less.hyps [of "i + 32" t1] less.prems le by blast
    have "squeeze_loop n st i tank = Inr t"
      using True k t1(1) t(1) by (subst squeeze_loop.simps) (simp add: Let_def)
    moreover have "t ! u = (if i \<le> u then tank_unit st u else tank ! u)" if "u < n" for u
    proof (cases "i \<le> u \<and> u < i + 32")
      case True
      then have "u div 32 = i div 32" "u mod 32 = u - i"
        using less.prems(4) by (auto elim!: dvdE simp: div_nat_eqI mod_nat_eqI)
      then show ?thesis
        using True t(3) t1(3) that less.prems(1) by (simp add: tank_unit_def)
    next
      case False
      then show ?thesis
        using t(3) t1(3) that less.prems(1) by auto
    qed
    ultimately show ?thesis using t(2) by blast
  qed
qed

lemma squeeze_result:
  assumes "32 dvd length (entropy_tank c)" "length (entropy_tank c) \<le> 512"
  shows "squeeze c = Inr (c\<lparr>entropy_tank := map (tank_unit (state c)) [0..<length (entropy_tank c)],
                             entropy_cursor := 0\<rparr>)"
proof -
  have "\<exists>t. squeeze_loop (length (entropy_tank c)) (state c) 0 (entropy_tank c) = Inr t
      \<and> length t = length (entropy_tank c)
      \<and> (\<forall>u < length (entropy_tank c). t ! u =
            (if 0 \<le> u then tank_unit (state c) u else entropy_tank c ! u))"
    by (rule squeeze_loop_result [OF refl assms(1) assms(2) dvd_0_right le0])
  then obtain t where t: "squeeze_loop (length (entropy_tank c)) (state c) 0 (entropy_tank c) = Inr t"
      "length t = length (entropy_tank c)"
      "\<forall>u < length (entropy_tank c). t ! u = tank_unit (state c) u"
    by auto
  have "t = map (tank_unit (state c)) [0..<length (entropy_tank c)]"
    using t(2,3) by (intro nth_equalityI) simp_all
  then show ?thesis
    using t(1) by (simp add: squeeze_def)
qed

lemma le32_xor:
  "(((x XOR ucast b0) XOR push_bit 8 (ucast b1)) XOR push_bit 16 (ucast b2))
     XOR push_bit 24 (ucast b3) = x XOR le32 b0 b1 b2 b3"
  for x :: "32 word" and b0 b1 b2 b3 :: "8 word"
proof -
  have "(ucast b0 :: 32 word) XOR push_bit 8 (ucast b1) XOR push_bit 16 (ucast b2)
     XOR push_bit 24 (ucast b3) = le32 b0 b1 b2 b3"
    unfolding le32_def
    by (rule bit_word_eqI) (auto simp: bit_simps dest: bit_imp_le_length)
  then show ?thesis
    by (simp add: xor.assoc)
qed

lemma absorb_bytes_result:
  assumes "i + 4 \<le> length bs" "i div 4 < 2 * N_BRANCHES" "i div 4 < length st" "4 dvd i"
  shows "absorb_bytes bs i 0 st = Inr (st[i div 4 := st ! (i div 4) XOR chunk bs (i div 4)])"
proof -
  have i: "4 * (i div 4) = i"
    using assms(4) by simp
  show ?thesis
    using assms(1-3)
    apply (subst absorb_bytes.simps, simp)
    apply (subst absorb_bytes.simps, simp)
    apply (subst absorb_bytes.simps, simp)
    apply (subst absorb_bytes.simps, simp)
    apply (subst absorb_bytes.simps, simp)
    apply (simp only: le32_xor)
    apply (simp add: chunk_def i numeral_3_eq_3)
    done
qed

lemma absorb_loop_result:
  assumes "4 dvd length bs" "length bs \<le> 64" "length st = 16" "4 dvd i" "i \<le> length bs"
  shows "\<exists>st'. absorb_loop bs i st = Inr st' \<and> length st' = 16
    \<and> (\<forall>k < 16. st' ! k =
          (if i div 4 \<le> k \<and> k < length bs div 4 then st ! k XOR chunk bs k else st ! k))"
  using assms
proof (induction "length bs - i" arbitrary: i st rule: less_induct)
  case less
  show ?case
  proof (cases "i < length bs")
    case False
    then have "i = length bs" using less.prems by simp
    then show ?thesis
      using less.prems by (subst absorb_loop.simps) auto
  next
    case True
    from less.prems True have le: "i + 4 \<le> length bs"
      by (auto elim!: dvdE)
    then have k: "i div 4 < 16"
      using less.prems by simp
    let ?st1 = "st[i div 4 := st ! (i div 4) XOR chunk bs (i div 4)]"
    have b: "absorb_bytes bs i 0 st = Inr ?st1"
      using le k less.prems by (intro absorb_bytes_result) (simp_all add: N_BRANCHES_def)
    have "length bs - (i + 4) < length bs - i" using True by simp
    moreover have "length ?st1 = 16" using less.prems by simp
    moreover have "4 dvd (i + 4)" using less.prems by simp
    ultimately obtain st' where st': "absorb_loop bs (i + 4) ?st1 = Inr st'" "length st' = 16"
        "\<forall>k < 16. st' ! k =
          (if (i + 4) div 4 \<le> k \<and> k < length bs div 4 then ?st1 ! k XOR chunk bs k else ?st1 ! k)"
      using less.hyps [of "i + 4" ?st1] less.prems le by blast
    have "absorb_loop bs i st = Inr st'"
      using True b st'(1) by (subst absorb_loop.simps) simp
    moreover have "st' ! k =
          (if i div 4 \<le> k \<and> k < length bs div 4 then st ! k XOR chunk bs k else st ! k)"
      if "k < 16" for k
    proof (cases "k = i div 4")
      case True
      moreover have "i div 4 < length bs div 4"
        using le less.prems(1,4) by (auto elim!: dvdE)
      moreover have "(i + 4) div 4 = i div 4 + 1"
        by simp
      ultimately show ?thesis
        using st'(3) that less.prems(3) by simp
    next
      case False
      then show ?thesis
        using st'(3) that less.prems(3) by auto
    qed
    ultimately show ?thesis using st'(2) by blast
  qed
qed

lemma absorb_loop_xor_chunks:
  assumes "4 dvd length bs" "length bs \<le> 64" "length st = 16"
  shows "absorb_loop bs 0 st = Inr (xor_chunks bs st)"
proof -
  have "\<exists>st'. absorb_loop bs 0 st = Inr st' \<and> length st' = 16
    \<and> (\<forall>k < 16. st' ! k =
          (if 0 div 4 \<le> k \<and> k < length bs div 4 then st ! k XOR chunk bs k else st ! k))"
    by (rule absorb_loop_result [OF assms dvd_0_right le0])
  then obtain st' where st': "absorb_loop bs 0 st = Inr st'" "length st' = 16"
    "\<forall>k < 16. st' ! k = (if k < length bs div 4 then st ! k XOR chunk bs k else st ! k)"
    by auto
  have "st' = xor_chunks bs st"
    using st'(2,3) assms(3) by (intro nth_equalityI) (simp_all add: xor_chunks_def)
  then show ?thesis
    using st'(1) by simp
qed

lemma permute_loop_zero_steps: "permute_loop 0 i st = st"
  by (subst permute_loop.simps) simp

lemma length_xor_chunks: "length (xor_chunks bs st) = length st"
  by (simp add: xor_chunks_def)

lemma state_xor_last: "length (state (xor_last v c)) = length (state c)"
  by (simp add: xor_last_def)

lemma absorb_eq_spec:
  assumes "4 dvd length bs" "length bs \<le> 64" "length (state c) = 2 * N_BRANCHES"
  shows "absorb bs c = absorb_spec bs c"
proof -
  have "absorb_loop bs 0 (state (xor_last 1 c)) = Inr (xor_chunks bs (state (xor_last 1 c)))"
    using assms by (intro absorb_loop_xor_chunks) (simp_all add: state_xor_last N_BRANCHES_def)
  then show ?thesis
    by (simp add: absorb_def absorb_spec_def Let_def)
qed

lemma init_core:
  "core (SparkleRG_init s r) =
     \<lparr>steps = s, state = replicate 16 0, entropy_tank = replicate (unat r) False, entropy_cursor = 0\<rparr>"
  by (simp add: SparkleRG_init_def Sparkle512core_setup_def Sparkle512core_new_def N_BRANCHES_def)

text \<open>
  Claim C5 says that every \<^verbatim>\<open>absorb\<close> call folds its data zero-padded to the block
  width. The wrapper \<^verbatim>\<open>SparkleRG.absorb\<close> pads to 48 bytes and only when the payload
  is shorter: 49 bytes reach the core unpadded, and the core reads beyond the end of
  the array. The core itself pads nothing: one byte is already read out of bounds.
  The wrapper of the module \<^verbatim>\<open>sparklyRG\<close> pads with ASCII characters, so that even
  the empty payload changes all sixteen words.
\<close>

theorem absorb_not_always_zero_padded:
  "SparkleRG_absorb (replicate 49 0) (SparkleRG_init 8 256) = Undefined OutOfBounds
   \<and> absorb [1] (core (SparkleRG_init 8 256)) = Inl OutOfBounds
   \<and> absorb_loop ([] @ [0x31] @ replicate (63 - length ([] :: 8 word list)) 0x30) 0
         (replicate 16 0) = Inr (0x30303031 # replicate 15 0x30303030)"
  by code_simp

text \<open>
  Claim C5, amended. The core \<^verbatim>\<open>absorb\<close>, given a byte array of 0, 4, ..., 64 bytes,
  does what the specification lists, in that order, on the array as it is: XOR 1 into
  the last state word, XOR the little-endian 32-bit chunks into the state words from
  word 0 on, permute, XOR 2 into the last word, permute, squeeze. It pads nothing; the
  padding is the wrapper's. \<^verbatim>\<open>SparkleRG.absorb\<close> pads a payload of at most 48 bytes
  with zero bytes to 48 bytes; the wrapper of the module \<^verbatim>\<open>sparklyRG\<close> appends the
  ASCII character 1 and then ASCII characters 0 up to 64 bytes to a payload of at most
  63 bytes. When the tank has a size squeeze can fill (a multiple of 32, at most 512),
  the call returns with the whole tank recomputed from the new state and the cursor
  at 0.
\<close>

theorem absorb_sequence:
  assumes "length (state (core g)) = 2 * N_BRANCHES"
  shows "(4 dvd length bs \<and> length bs \<le> 64 \<longrightarrow> absorb bs (core g) = absorb_spec bs (core g))
     \<and> (length x \<le> 48 \<longrightarrow>
          SparkleRG_absorb x g =
            (case absorb_spec (zero_pad 48 x) (core g) of
               Inl e \<Rightarrow> Undefined e
             | Inr c \<Rightarrow> Returned () (g\<lparr>core := c\<rparr>)))
     \<and> (length x \<le> 63 \<longrightarrow>
          wrapper_absorb x g =
            (case absorb_spec (x @ [0x31] @ replicate (63 - length x) 0x30) (core g) of
               Inl e \<Rightarrow> Undefined e
             | Inr c \<Rightarrow> Returned () (g\<lparr>core := c\<rparr>)))
     \<and> (32 dvd length (entropy_tank (core g)) \<and> length (entropy_tank (core g)) \<le> 512 \<longrightarrow>
          (\<exists>c. absorb_spec bs (core g) = Inr c \<and> entropy_cursor c = 0
             \<and> entropy_tank c = map (tank_unit (state c)) [0..<length (entropy_tank (core g))]))"
proof (intro conjI impI)
  assume "4 dvd length bs \<and> length bs \<le> 64"
  then show "absorb bs (core g) = absorb_spec bs (core g)"
    using assms by (intro absorb_eq_spec) simp_all
next
  assume "length x \<le> 48"
  then have "length (zero_pad 48 x) = 48"
    by (simp add: zero_pad_def)
  then have "absorb (zero_pad 48 x) (core g) = absorb_spec (zero_pad 48 x) (core g)"
    using assms by (intro absorb_eq_spec) simp_all
  then show "SparkleRG_absorb x g =
            (case absorb_spec (zero_pad 48 x) (core g) of
               Inl e \<Rightarrow> Undefined e
             | Inr c \<Rightarrow> Returned () (g\<lparr>core := c\<rparr>))"
    by (simp add: SparkleRG_absorb_def zero_pad_def)
next
  let ?bs = "x @ [0x31] @ replicate (63 - length x) 0x30"
  assume "length x \<le> 63"
  then have "length ?bs = 64"
    by simp
  then have "absorb ?bs (core g) = absorb_spec ?bs (core g)"
    using assms by (intro absorb_eq_spec) simp_all
  then show "wrapper_absorb x g =
            (case absorb_spec ?bs (core g) of
               Inl e \<Rightarrow> Undefined e
             | Inr c \<Rightarrow> Returned () (g\<lparr>core := c\<rparr>))"
    by (simp add: wrapper_absorb_def)
next
  define c5 where "c5 = permute (xor_last 2 (permute ((xor_last 1 (core g))
      \<lparr>state := xor_chunks bs (state (xor_last 1 (core g)))\<rparr>)))"
  have spec: "absorb_spec bs (core g) = squeeze c5"
    by (simp add: absorb_spec_def c5_def Let_def)
  have tank: "entropy_tank c5 = entropy_tank (core g)"
    by (simp add: c5_def permute_def xor_last_def)
  assume "32 dvd length (entropy_tank (core g)) \<and> length (entropy_tank (core g)) \<le> 512"
  then have "squeeze c5 = Inr (c5\<lparr>entropy_tank := map (tank_unit (state c5)) [0..<length (entropy_tank c5)],
                           entropy_cursor := 0\<rparr>)"
    using tank by (intro squeeze_result) simp_all
  then show "\<exists>c. absorb_spec bs (core g) = Inr c \<and> entropy_cursor c = 0
           \<and> entropy_tank c = map (tank_unit (state c)) [0..<length (entropy_tank (core g))]"
    using spec tank by simp
qed

theorem absorb_sequence_witness:
  "length (state (core (SparkleRG_init 8 256))) = 2 * N_BRANCHES
   \<and> 4 dvd length (zero_pad 48 [0x73, 0x65, 0x65, 0x64]) \<and> length (zero_pad 48 [0x73, 0x65, 0x65, 0x64]) \<le> 64
   \<and> length [0x73, 0x65, 0x65, 0x64 :: 8 word] \<le> 48
   \<and> 32 dvd length (entropy_tank (core (SparkleRG_init 8 256)))
   \<and> length (entropy_tank (core (SparkleRG_init 8 256))) \<le> 512
   \<and> absorb (zero_pad 48 [0x73, 0x65, 0x65, 0x64]) (core (SparkleRG_init 8 256))
       = absorb_spec (zero_pad 48 [0x73, 0x65, 0x65, 0x64]) (core (SparkleRG_init 8 256))
   \<and> (\<exists>c. SparkleRG_absorb [0x73, 0x65, 0x65, 0x64] (SparkleRG_init 8 256)
            = Returned () ((SparkleRG_init 8 256)\<lparr>core := c\<rparr>)
          \<and> absorb_spec (zero_pad 48 [0x73, 0x65, 0x65, 0x64]) (core (SparkleRG_init 8 256)) = Inr c
          \<and> entropy_cursor c = 0
          \<and> entropy_tank c = map (tank_unit (state c)) [0..<256])"
proof -
  let ?x = "[0x73, 0x65, 0x65, 0x64 :: 8 word]"
  have h0: "length (state (core (SparkleRG_init 8 256))) = 2 * N_BRANCHES"
    by (simp add: init_core N_BRANCHES_def)
  have h1: "length (zero_pad 48 ?x) = 48" "length ?x \<le> 48"
    by (simp_all add: zero_pad_def)
  have h3: "32 dvd length (entropy_tank (core (SparkleRG_init 8 256)))"
      "length (entropy_tank (core (SparkleRG_init 8 256))) \<le> 512"
      "length (entropy_tank (core (SparkleRG_init 8 256))) = 256"
    by (simp_all add: init_core)
  show ?thesis
    using absorb_sequence [OF h0, of "zero_pad 48 ?x" ?x] h0 h1 h3 by auto
qed

section \<open>Configuration and block size\<close>

lemma squeeze_empty_tank:
  assumes "entropy_tank c = []"
  shows "squeeze c = Inr (c\<lparr>entropy_cursor := 0\<rparr>)"
  using assms by (simp add: squeeze_def squeeze_loop.simps [of 0])

text \<open>
  Claim C7 says that \<^verbatim>\<open>absorb\<close> before \<^verbatim>\<open>setup\<close>, and \<^verbatim>\<open>setup\<close> with zero steps
  or a zero output rate, fail with a configuration error. The code has no such error.
  On the core as constructed, absorbing the four bytes of \<^verbatim>\<open>b"seed"\<close> returns
  normally, and \<^verbatim>\<open>setup(0, 0)\<close> is accepted and leaves the core as constructed.
\<close>

theorem absorb_before_setup_returns:
  "absorb [0x73, 0x65, 0x65, 0x64] Sparkle512core_new =
     Inr \<lparr>steps = 0,
          state = [0x64656573, 0, 0, 0, 0, 0, 0, 0, 0, 0, 0, 0, 0, 0, 0, 3],
          entropy_tank = [], entropy_cursor = 0\<rparr>
   \<and> SparkleRG_init 0 0 = \<lparr>core = Sparkle512core_new\<rparr>"
  by code_simp

text \<open>
  Claim C7, amended. \<^verbatim>\<open>setup\<close> accepts every value of \<^verbatim>\<open>steps\<close> and of the output
  rate, zero included, and stores them. \<^verbatim>\<open>absorb\<close> on a core that was constructed
  but never set up does not fail for that reason: it runs with zero steps and an empty
  tank, so both permutations are the identity and squeeze writes nothing. For a
  payload of 0, 4, ..., 64 bytes it returns, with the payload and the two constants
  XORed into the state, the tank still empty and the cursor at 0.
\<close>

theorem setup_and_absorb_never_configuration_error:
  assumes "4 dvd length bs" "length bs \<le> 64"
  shows "steps (Sparkle512core_setup s r c) = s
     \<and> length (entropy_tank (Sparkle512core_setup s r c)) = unat r
     \<and> absorb bs Sparkle512core_new =
         Inr (xor_last 2 ((xor_last 1 Sparkle512core_new)
                \<lparr>state := xor_chunks bs (state (xor_last 1 Sparkle512core_new))\<rparr>))"
proof -
  let ?c1 = "xor_last 1 Sparkle512core_new"
  have "length (state ?c1) = 16"
    by (simp add: state_xor_last Sparkle512core_new_def N_BRANCHES_def)
  then have loop: "absorb_loop bs 0 (state ?c1) = Inr (xor_chunks bs (state ?c1))"
    using assms by (intro absorb_loop_xor_chunks)
  let ?c2 = "?c1\<lparr>state := xor_chunks bs (state ?c1)\<rparr>"
  have st: "steps ?c2 = 0" "steps (xor_last 2 ?c2) = 0"
    by (simp_all add: xor_last_def Sparkle512core_new_def)
  have p1: "permute ?c2 = ?c2"
    using st(1) by (simp add: permute_def permute_loop_zero_steps)
  have p2: "permute (xor_last 2 ?c2) = xor_last 2 ?c2"
    using st(2) by (simp add: permute_def permute_loop_zero_steps)
  have "entropy_tank (xor_last 2 ?c2) = []" "entropy_cursor (xor_last 2 ?c2) = 0"
    by (simp_all add: xor_last_def Sparkle512core_new_def)
  then have "squeeze (xor_last 2 ?c2) = Inr (xor_last 2 ?c2)"
    by (simp add: squeeze_empty_tank)
  then have "absorb bs Sparkle512core_new = Inr (xor_last 2 ?c2)"
    using loop p1 p2 by (simp add: absorb_def Let_def)
  then show ?thesis
    by (simp add: Sparkle512core_setup_def)
qed

theorem setup_and_absorb_never_configuration_error_witness:
  "4 dvd length [0x73, 0x65, 0x65, 0x64 :: 8 word] \<and> length [0x73, 0x65, 0x65, 0x64 :: 8 word] \<le> 64
   \<and> steps (Sparkle512core_setup 0 0 Sparkle512core_new) = 0
   \<and> length (entropy_tank (Sparkle512core_setup 0 0 Sparkle512core_new)) = 0
   \<and> absorb [0x73, 0x65, 0x65, 0x64] Sparkle512core_new =
         Inr (xor_last 2 ((xor_last 1 Sparkle512core_new)
                \<lparr>state := xor_chunks [0x73, 0x65, 0x65, 0x64]
                             (state (xor_last 1 Sparkle512core_new))\<rparr>))"
proof -
  have h: "4 dvd length [0x73, 0x65, 0x65, 0x64 :: 8 word]"
      "length [0x73, 0x65, 0x65, 0x64 :: 8 word] \<le> 64"
    by (simp_all add: eval_nat_numeral)
  show ?thesis
    using setup_and_absorb_never_configuration_error [OF h, of 0 0 Sparkle512core_new] h
    by simp
qed

text \<open>
  Claim C6: a payload longer than the block must be rejected. \<^verbatim>\<open>SparkleRG.absorb\<close>
  has no length check. A payload of 61 bytes is passed to the core as it is, and the
  core reads \<^verbatim>\<open>byte_array[61]\<close>, beyond its end; a payload of 64 bytes is folded
  into all sixteen state words, the reserved last one included, and the call returns.
  No call of \<^verbatim>\<open>SparkleRG.absorb\<close> raises. The sibling \<^verbatim>\<open>EschRG._absorb_block\<close>
  does refuse the 61 bytes.
\<close>

theorem oversized_payload_not_rejected:
  "SparkleRG_absorb (replicate 61 0) (SparkleRG_init 8 256) = Undefined OutOfBounds
   \<and> (\<exists>g'. SparkleRG_absorb (replicate 64 0xFF) (SparkleRG_init 8 256) = Returned () g')
   \<and> absorb_loop (replicate 64 0xFF) 0 (replicate 16 0) = Inr (replicate 16 0xFFFFFFFF)
   \<and> (\<forall>x g e g'. SparkleRG_absorb x g \<noteq> Raised e g')
   \<and> EschRG_absorb_block (replicate 61 0) \<lparr>rg = SparkleRG_init 8 256, absorbed = []\<rparr>
       = Raised (Exception ''block is too big, max length is 31 bytes'')
           \<lparr>rg = SparkleRG_init 8 256, absorbed = []\<rparr>"
proof -
  have a: "SparkleRG_absorb (replicate 61 0) (SparkleRG_init 8 256) = Undefined OutOfBounds"
    by code_simp
  have c: "absorb_loop (replicate 64 0xFF) 0 (replicate 16 0) = Inr (replicate 16 0xFFFFFFFF)"
    by code_simp
  have d: "\<forall>x g e g'. SparkleRG_absorb x g \<noteq> Raised e g'"
    by (simp add: SparkleRG_absorb_def Let_def split: sum.splits)
  have e: "EschRG_absorb_block (replicate 61 0) \<lparr>rg = SparkleRG_init 8 256, absorbed = []\<rparr>
       = Raised (Exception ''block is too big, max length is 31 bytes'')
           \<lparr>rg = SparkleRG_init 8 256, absorbed = []\<rparr>"
    by (simp add: EschRG_absorb_block_def)
  have b: "\<exists>g'. SparkleRG_absorb (replicate 64 0xFF) (SparkleRG_init 8 256) = Returned () g'"
  proof -
    let ?c1 = "xor_last 1 (core (SparkleRG_init 8 256))"
    let ?bs = "replicate 64 (0xFF :: 8 word)"
    have "length (state ?c1) = 16"
      by (simp add: state_xor_last init_core)
    then have loop: "absorb_loop ?bs 0 (state ?c1) = Inr (xor_chunks ?bs (state ?c1))"
      by (intro absorb_loop_xor_chunks) simp_all
    define c5 where "c5 = permute (xor_last 2 (permute (?c1\<lparr>state := xor_chunks ?bs (state ?c1)\<rparr>)))"
    have "entropy_tank c5 = replicate 256 False"
      by (simp add: c5_def permute_def xor_last_def init_core)
    then have "\<exists>c. squeeze c5 = Inr c"
      using squeeze_result [of c5] by simp
    then show ?thesis
      using loop by (auto simp: SparkleRG_absorb_def absorb_def Let_def c5_def)
  qed
  show ?thesis
    using a b c d e by blast
qed

section \<open>The rejection loop\<close>

lemma first_accepted_now:
  assumes "get_n_bit_unsigned_integer bl c = Inr (output, c1)" "\<not> rng \<le> output"
  shows "first_accepted bl rng c (Inr (output, c1))"
proof -
  have "nth_draw bl 0 c = Inr (output, c1)"
    using assms(1) by simp
  then show ?thesis
    unfolding first_accepted_def using assms(2) by (intro allI impI exI [of _ 0]) auto
qed

lemma first_accepted_later:
  assumes "get_n_bit_unsigned_integer bl c = Inr (output, c1)" "rng \<le> output"
    and "first_accepted bl rng c1 y"
  shows "first_accepted bl rng c y"
  unfolding first_accepted_def
proof (intro allI impI)
  fix v c'
  assume "y = Inr (v, c')"
  then obtain k where k: "nth_draw bl k c1 = Inr (v, c')" "v < rng"
      "\<forall>j < k. \<exists>vj cj. nth_draw bl j c1 = Inr (vj, cj) \<and> rng \<le> vj"
    using assms(3) unfolding first_accepted_def by blast
  have "nth_draw bl (Suc k) c = Inr (v, c')"
    using assms(1) k(1) by simp
  moreover have "\<exists>vj cj. nth_draw bl j c = Inr (vj, cj) \<and> rng \<le> vj" if "j < Suc k" for j
  proof (cases j)
    case 0
    then show ?thesis using assms(1,2) by simp
  next
    case (Suc j')
    then show ?thesis using assms(1) k(3) that by simp
  qed
  ultimately show "\<exists>k. nth_draw bl k c = Inr (v, c') \<and> v < rng
        \<and> (\<forall>j < k. \<exists>vj cj. nth_draw bl j c = Inr (vj, cj) \<and> rng \<le> vj)"
    using k(2) by blast
qed

lemma rejection_loop_first_accepted:
  assumes "rejection_loop bl rng c = Some y"
  shows "first_accepted bl rng c y"
proof (rule rejection_loop.raw_induct [OF _ assms])
  fix rejection_loop bl rng c y
  assume IH: "\<And>bl rng c y. rejection_loop bl rng c = Some y \<Longrightarrow> first_accepted bl rng c y"
    and step: "(case get_n_bit_unsigned_integer bl c of
        Inl e \<Rightarrow> Some (Inl e)
      | Inr (output, c') \<Rightarrow>
          if rng \<le> output then rejection_loop bl rng c' else Some (Inr (output, c'))) = Some y"
  show "first_accepted bl rng c y"
  proof (cases "get_n_bit_unsigned_integer bl c")
    case (Inl e)
    then have "y = Inl e" using step by simp
    then show ?thesis by (simp add: first_accepted_def)
  next
    case (Inr p)
    obtain out c1 where p: "p = (out, c1)" by (cases p)
    show ?thesis
    proof (cases "rng \<le> out")
      case False
      then have "y = Inr (out, c1)"
        using step Inr p by simp
      then show ?thesis
        using first_accepted_now [of bl c out c1 rng] Inr p False by simp
    next
      case True
      then have "rejection_loop bl rng c1 = Some y"
        using step Inr p by simp
      then have "first_accepted bl rng c1 y"
        by (rule IH)
      then show ?thesis
        using first_accepted_later [of bl c out c1 rng y] Inr p True by simp
    qed
  qed
qed

section \<open>The bit length of a range\<close>

lemma leading_zeros_top_bit:
  assumes "\<exists>i < k. bit x i"
  shows "leading_zeros x k < k \<and> bit x (k - 1 - leading_zeros x k)
     \<and> (\<forall>i. k - 1 - leading_zeros x k < i \<and> i < k \<longrightarrow> \<not> bit x i)"
  using assms
proof (induction k)
  case 0
  then show ?case by simp
next
  case (Suc k)
  show ?case
  proof (cases "bit x k")
    case True
    then show ?thesis by auto
  next
    case False
    then have "\<exists>i < k. bit x i"
      using Suc.prems by (metis less_Suc_eq)
    then have IH: "leading_zeros x k < k" "bit x (k - 1 - leading_zeros x k)"
        "\<forall>i. k - 1 - leading_zeros x k < i \<and> i < k \<longrightarrow> \<not> bit x i"
      using Suc.IH by simp_all
    have eq: "Suc k - 1 - Suc (leading_zeros x k) = k - 1 - leading_zeros x k"
      using IH(1) by simp
    have "\<not> bit x i" if "k - 1 - leading_zeros x k < i" "i < Suc k" for i
      using that IH(3) False by (cases "i = k") auto
    then show ?thesis
      using False IH(1,2) eq by simp
  qed
qed

lemma word_bounds_of_top_bit:
  fixes x :: "64 word"
  assumes "bit x m" "\<forall>i. m < i \<and> i < 64 \<longrightarrow> \<not> bit x i"
  shows "2 ^ m \<le> unat x \<and> unat x < 2 ^ Suc m"
proof -
  have m: "m < 64"
    using assms(1) by (auto dest: bit_imp_le_length)
  have "take_bit (Suc m) x = x"
  proof (rule bit_word_eqI)
    fix n assume "n < LENGTH(64)"
    show "bit (take_bit (Suc m) x) n = bit x n"
    proof (cases "n < Suc m")
      case True
      then show ?thesis by (simp add: bit_take_bit_iff)
    next
      case False
      then have "m < n" by simp
      then have "\<not> bit x n"
        using assms(2) \<open>n < LENGTH(64)\<close> by simp
      then show ?thesis by (simp add: bit_take_bit_iff)
    qed
  qed
  then have "unat x = take_bit (Suc m) (unat x)"
    by (metis unsigned_take_bit_eq)
  then have up: "unat x < 2 ^ Suc m"
    by (metis take_bit_nat_less_exp)
  have "bit (unat x) m"
    using assms(1) by (simp add: bit_unsigned_iff)
  have "\<not> unat x < 2 ^ m"
  proof
    assume "unat x < 2 ^ m"
    then have "unat x div 2 ^ m = 0"
      by simp
    then have "\<not> bit (unat x) m"
      by (simp add: bit_iff_odd)
    then show False
      using \<open>bit (unat x) m\<close> by simp
  qed
  then show ?thesis using up by simp
qed


lemma leading_zeros_bounds:
  fixes x :: "64 word"
  assumes "x \<noteq> 0"
  shows "leading_zeros x 64 < 64
     \<and> 2 ^ (63 - leading_zeros x 64) \<le> unat x
     \<and> unat x < 2 ^ (64 - leading_zeros x 64)"
proof -
  have "\<exists>i. bit x i"
  proof (rule ccontr)
    assume "\<not> (\<exists>i. bit x i)"
    then have "x = 0"
      by (intro bit_word_eqI) simp
    then show False
      using assms by simp
  qed
  then obtain i where i: "bit x i"
    by blast
  then have "i < 64"
    using bit_imp_le_length [of x i] by simp
  then have "\<exists>i < 64. bit x i"
    using i by blast
  then have z: "leading_zeros x 64 < 64" "bit x (64 - 1 - leading_zeros x 64)"
      "\<forall>i. 64 - 1 - leading_zeros x 64 < i \<and> i < 64 \<longrightarrow> \<not> bit x i"
    using leading_zeros_top_bit [of 64 x] by simp_all
  have "Suc (63 - leading_zeros x 64) = 64 - leading_zeros x 64"
    using z(1) by simp
  then show ?thesis
    using word_bounds_of_top_bit [of x "63 - leading_zeros x 64"] z by simp
qed

lemma get_unsigned_integer_in_range_unfold:
  assumes "bit_length lower upper = Inr b"
  shows "get_unsigned_integer_in_range lower upper c =
     (case rejection_loop b (upper - lower) c of
        None \<Rightarrow> None
      | Some (Inl e) \<Rightarrow> Some (Inl e)
      | Some (Inr (output, c')) \<Rightarrow> Some (Inr (lower + output, c')))"
  using assms by (simp add: get_unsigned_integer_in_range_def)

text \<open>
  Claim C1 says that the number of bits requested is the smallest \<open>b\<close> with
  \<open>2^b \<ge> range\<close>, and that \<open>2^b < 2 * range\<close>. For \<open>range = 2\<close> the code requests
  2 bits, not 1, and \<open>2^2 < 2 * 2\<close> is false; a call \<^verbatim>\<open>(0, 2)\<close> on a new generator
  advances the cursor by 2 in its single draw.
\<close>

theorem bit_length_of_two:
  "bit_length 0 2 = Inr 2
   \<and> (2 :: nat) \<le> 2 ^ 1
   \<and> \<not> ((2 :: nat) ^ 2 < 2 * 2)
   \<and> SparkleRG_call 0 2 (SparkleRG_init 8 256) =
       Some (Returned 0 \<lparr>core = (core (SparkleRG_init 8 256))\<lparr>entropy_cursor := 2\<rparr>\<rparr>)"
  by code_simp

text \<open>
  Claim C1, amended. For \<open>range = upper - lower \<ge> 1\<close>, the number of bits requested
  in each iteration of the rejection loop is the number of bits of \<open>range\<close> itself
  (the position of its highest set bit, plus one): the smallest \<open>b\<close> with
  \<open>2^b > range\<close>. It satisfies \<open>range < 2^b \<le> 2 * range\<close>, with \<open>2^b = 2 * range\<close>
  exactly when \<open>range\<close> is a power of two.
\<close>

theorem bit_length_is_width_of_range:
  assumes "upper - lower = r" "r \<noteq> 0"
  shows "\<exists>b. bit_length lower upper = Inr b
     \<and> get_unsigned_integer_in_range lower upper c =
         (case rejection_loop b r c of
            None \<Rightarrow> None
          | Some (Inl e) \<Rightarrow> Some (Inl e)
          | Some (Inr (output, c')) \<Rightarrow> Some (Inr (lower + output, c')))
     \<and> 1 \<le> b \<and> b \<le> 64
     \<and> unat r < 2 ^ b \<and> 2 ^ b \<le> 2 * unat r
     \<and> (\<forall>b'. unat r < 2 ^ b' \<longrightarrow> b \<le> b')
     \<and> (2 ^ b = 2 * unat r \<longleftrightarrow> (\<exists>k. unat r = 2 ^ k))"
proof -
  define z where "z = leading_zeros r 64"
  define b where "b = 64 - z"
  have z: "z < 64" "2 ^ (63 - z) \<le> unat r" "unat r < 2 ^ (64 - z)"
    using leading_zeros_bounds [OF assms(2)] by (simp_all add: z_def)
  have bl: "bit_length lower upper = Inr b"
    using assms by (simp add: bit_length_def builtin_clzll_def z_def b_def)
  have b: "1 \<le> b" "b \<le> 64" "63 - z = b - 1"
    using z(1) by (simp_all add: b_def)
  have lo: "2 ^ (b - 1) \<le> unat r"
    using z(2) unfolding b(3) .
  have hi: "unat r < 2 ^ b"
    using z(3) unfolding b_def .
  have pw: "(2 :: nat) ^ b = 2 * 2 ^ (b - 1)"
    using b(1) by (cases b) simp_all
  have le: "2 ^ b \<le> 2 * unat r"
    using lo pw by simp
  have least: "b \<le> b'" if "unat r < 2 ^ b'" for b'
  proof -
    have "(2 :: nat) ^ (b - 1) < 2 ^ b'"
      using lo that by (rule le_less_trans)
    then have "b - 1 < b'"
      by simp
    then show ?thesis by simp
  qed
  have eq: "2 ^ b = 2 * unat r \<longleftrightarrow> (\<exists>k. unat r = 2 ^ k)"
  proof
    assume "2 ^ b = 2 * unat r"
    then have "unat r = 2 ^ (b - 1)"
      using pw by simp
    then show "\<exists>k. unat r = 2 ^ k" by blast
  next
    assume "\<exists>k. unat r = 2 ^ k"
    then obtain k where k: "unat r = 2 ^ k" by blast
    have "(2 :: nat) ^ (b - 1) \<le> 2 ^ k"
      using lo unfolding k .
    moreover have "(2 :: nat) ^ k < 2 ^ b"
      using hi unfolding k .
    ultimately have "b - 1 \<le> k" "k < b"
      by simp_all
    then have "k = b - 1" by simp
    then show "2 ^ b = 2 * unat r"
      using k pw by simp
  qed
  show ?thesis
    using bl get_unsigned_integer_in_range_unfold [OF bl, of c] assms(1) b(1,2) hi le least eq
    by (intro exI [of _ b]) simp
qed

theorem bit_length_is_width_of_range_witness:
  "(2 :: 64 word) - 0 = 2 \<and> (2 :: 64 word) \<noteq> 0
   \<and> (\<exists>b. bit_length 0 2 = Inr b \<and> unat (2 :: 64 word) < 2 ^ b \<and> 2 ^ b \<le> 2 * unat (2 :: 64 word))"
proof -
  have h: "(2 :: 64 word) - 0 = 2" "(2 :: 64 word) \<noteq> 0"
    by simp_all
  show ?thesis
    using bit_length_is_width_of_range [OF h, of Sparkle512core_new] h by blast
qed

section \<open>A range of one value\<close>

lemma get_bits_loop_done: "get_bits_loop n n result c = Inr (result, c)"
  by (subst get_bits_loop.simps) simp

lemma get_one_bit:
  assumes "entropy_cursor c < length (entropy_tank c)"
  shows "get_n_bit_unsigned_integer 1 c =
     Inr (if entropy_tank c ! entropy_cursor c then 1 else 0,
          c\<lparr>entropy_cursor := entropy_cursor c + 1\<rparr>)"
proof -
  have r: "refill_if_empty c = Inr c"
    using assms by (simp add: refill_if_empty_def)
  have s: "or_shifted_one 0 0 = 1"
    by (simp add: or_shifted_one_def int_one_shl_def)
  have "get_bit_step 0 0 c =
     Inr (if entropy_tank c ! entropy_cursor c then 1 else 0,
          c\<lparr>entropy_cursor := entropy_cursor c + 1\<rparr>)"
    using assms r s by (simp add: get_bit_step_def)
  then show ?thesis
    unfolding get_n_bit_unsigned_integer_def
    by (subst get_bits_loop.simps) (simp add: get_bits_loop_done)
qed

lemma bit_length_of_one: "bit_length lower (lower + 1) = Inr 1"
proof -
  have "leading_zeros 1 64 = 63"
    by code_simp
  then show ?thesis
    by (simp add: bit_length_def builtin_clzll_def)
qed

text \<open>
  Claim C2 says that a call with \<open>upper = lower + 1\<close> returns without consuming
  entropy. On a new generator the call \<^verbatim>\<open>(5, 6)\<close> returns 5 and leaves the cursor
  at 1: it has drawn one bit from the tank.
\<close>

theorem unit_range_moves_cursor:
  "SparkleRG_call 5 6 (SparkleRG_init 8 256) =
     Some (Returned 5 \<lparr>core = (core (SparkleRG_init 8 256))\<lparr>entropy_cursor := 1\<rparr>\<rparr>)
   \<and> entropy_cursor (core (SparkleRG_init 8 256)) = 0"
  by code_simp

text \<open>
  Claim C2, amended. The code has no special case for a range of one value. A call
  with \<open>upper = lower + 1\<close> requests one bit per iteration of the rejection loop: when
  the tank bit under the cursor is 0 it returns \<open>lower\<close> with the cursor advanced by
  one; when that bit is 1 it advances the cursor by one and draws again. Whenever the
  call returns, it returns \<open>lower\<close>.
\<close>

theorem unit_range_draws_single_bits:
  "bit_length lower (lower + 1) = Inr 1
   \<and> (entropy_cursor c < length (entropy_tank c) \<and> \<not> entropy_tank c ! entropy_cursor c \<longrightarrow>
        get_unsigned_integer_in_range lower (lower + 1) c =
          Some (Inr (lower, c\<lparr>entropy_cursor := entropy_cursor c + 1\<rparr>)))
   \<and> (entropy_cursor c < length (entropy_tank c) \<and> entropy_tank c ! entropy_cursor c \<longrightarrow>
        get_unsigned_integer_in_range lower (lower + 1) c =
          get_unsigned_integer_in_range lower (lower + 1)
            (c\<lparr>entropy_cursor := entropy_cursor c + 1\<rparr>))
   \<and> (\<forall>v c'. get_unsigned_integer_in_range lower (lower + 1) c = Some (Inr (v, c'))
        \<longrightarrow> v = lower)"
proof -
  have unfold: "get_unsigned_integer_in_range lower (lower + 1) c' =
     (case rejection_loop 1 1 c' of
        None \<Rightarrow> None
      | Some (Inl e) \<Rightarrow> Some (Inl e)
      | Some (Inr (output, c'')) \<Rightarrow> Some (Inr (lower + output, c'')))" for c'
    using get_unsigned_integer_in_range_unfold [OF bit_length_of_one, of lower c'] by simp
  have zero: "get_unsigned_integer_in_range lower (lower + 1) c =
          Some (Inr (lower, c\<lparr>entropy_cursor := entropy_cursor c + 1\<rparr>))"
    if "entropy_cursor c < length (entropy_tank c)" "\<not> entropy_tank c ! entropy_cursor c"
  proof -
    have "rejection_loop 1 1 c = Some (Inr (0, c\<lparr>entropy_cursor := entropy_cursor c + 1\<rparr>))"
      using get_one_bit [OF that(1)] that(2) by (subst rejection_loop.simps) simp
    then show ?thesis
      by (simp add: unfold)
  qed
  have one: "get_unsigned_integer_in_range lower (lower + 1) c =
          get_unsigned_integer_in_range lower (lower + 1)
            (c\<lparr>entropy_cursor := entropy_cursor c + 1\<rparr>)"
    if "entropy_cursor c < length (entropy_tank c)" "entropy_tank c ! entropy_cursor c"
  proof -
    have "rejection_loop 1 1 c = rejection_loop 1 1 (c\<lparr>entropy_cursor := entropy_cursor c + 1\<rparr>)"
      using get_one_bit [OF that(1)] that(2) by (subst rejection_loop.simps) simp
    then show ?thesis
      by (simp add: unfold)
  qed
  have val: "v = lower"
    if "get_unsigned_integer_in_range lower (lower + 1) c = Some (Inr (v, c'))" for v c'
  proof -
    from that obtain out where out: "rejection_loop 1 1 c = Some (Inr (out, c'))" "v = lower + out"
      by (auto simp: unfold split: option.splits sum.splits)
    have "first_accepted 1 1 c (Inr (out, c'))"
      using out(1) by (rule rejection_loop_first_accepted)
    then have "out < 1"
      unfolding first_accepted_def by blast
    then have "out = 0"
      by (simp add: word_less_1)
    then show ?thesis
      using out(2) by simp
  qed
  show ?thesis
    using bit_length_of_one zero one val by blast
qed

theorem unit_range_draws_single_bits_witness:
  "get_unsigned_integer_in_range 5 (5 + 1) (core (SparkleRG_init 8 256)) =
     Some (Inr (5, (core (SparkleRG_init 8 256))\<lparr>entropy_cursor := 1\<rparr>))
   \<and> get_unsigned_integer_in_range 5 (5 + 1)
       \<lparr>steps = 8, state = replicate 16 0, entropy_tank = [True, False], entropy_cursor = 0\<rparr> =
     Some (Inr (5, \<lparr>steps = 8, state = replicate 16 0, entropy_tank = [True, False],
                    entropy_cursor = 2\<rparr>))"
proof -
  let ?c = "\<lparr>steps = 8, state = replicate 16 0, entropy_tank = [True, False], entropy_cursor = 0\<rparr>"
  show ?thesis
    using unit_range_draws_single_bits [of 5 "core (SparkleRG_init 8 256)"]
      unit_range_draws_single_bits [of 5 ?c]
      unit_range_draws_single_bits [of 5 "?c\<lparr>entropy_cursor := 1\<rparr>"]
    by (simp add: init_core)
qed

section \<open>A recorded run\<close>

text \<open>
  The run \<^verbatim>\<open>g = SparkleRG(8, 256); g.absorb(b"seed")\<close>, step by step. \<open>seed_trail\<close>
  lists the state words: entry 0 after the block and the constant 1 are folded in,
  entries 1 to 8 after each step of the first permutation, entry 9 after the
  constant 2, entries 10 to 17 after each step of the second permutation.
  \<open>seed_tank\<close> is the tank squeezed from entry 17, and \<open>seeded\<close> the generator
  when \<^verbatim>\<open>absorb\<close> has returned.
\<close>

definition seed_block :: "8 word list" where
  "seed_block = [0x73, 0x65, 0x65, 0x64]"

definition seed_trail :: "32 word list list" where
  "seed_trail =
    [[1684366707, 0, 0, 0, 0, 0, 0, 0, 0, 0, 0, 0, 0, 0, 0, 1],
     [3794834547, 965208942, 3223785586, 2443332346, 47958191, 2580417658, 152571700,
      2665106413, 2209317586, 3990285706, 1801488812, 636237016, 3933236885, 62846506,
      2679349331, 2614068884],
     [4011890819, 3119111693, 264670100, 1337312715, 3817669036, 1668118676,
      3223830776, 290667801, 1570907907, 4182180600, 2616185256, 4216767289,
      3710710914, 1030633870, 801759308, 3741871721],
     [2957432071, 1759893506, 2767845015, 856492347, 941622835, 3102266764,
      1918089928, 493174271, 3716156396, 3235369262, 542707548, 2667858333,
      3709891643, 2078731343, 1302824101, 1348570024],
     [931905628, 2209485965, 4044946295, 828748457, 3535924560, 1340095361,
      3346648338, 2696908027, 384595088, 2695386394, 933374203, 2530900341,
      3136555875, 4156567354, 1611769293, 3525031147],
     [3159667153, 2330979986, 1407181173, 2031443384, 135072828, 3668545505,
      439261946, 2020383300, 2875872249, 4038156510, 1551360975, 1938162109,
      678064296, 4224642882, 1899924266, 2525853050],
     [3949234046, 1289793289, 2838103717, 2049782073, 2285823529, 2164773397,
      1617262786, 2388152904, 2622414344, 2583196396, 2579011314, 1993570618,
      2121619189, 3624526255, 102127487, 2515393530],
     [3196329011, 2669146883, 3485105735, 3351287486, 2909894078, 400288532,
      2085601500, 696522427, 1725677918, 2944107417, 2684164762, 2525003137,
      3967001078, 3910680525, 2248759939, 792331145],
     [1084664992, 2770693009, 620240309, 3316988048, 1097465280, 2989033330,
      2866146226, 1230871757, 1590768688, 964100407, 60742273, 1535813639, 1459320934,
      1922750890, 34051728, 218827933],
     [1084664992, 2770693009, 620240309, 3316988048, 1097465280, 2989033330,
      2866146226, 1230871757, 1590768688, 964100407, 60742273, 1535813639, 1459320934,
      1922750890, 34051728, 218827935],
     [773495639, 205459618, 697143508, 41558737, 4257181103, 466765498, 97688968,
      3057877632, 2763616155, 4085180253, 2135401998, 2539851854, 264271794,
      1661736473, 2327488568, 2052405481],
     [907455572, 3733650824, 10123945, 2991994326, 454223051, 4057402015, 1618001226,
      1226437281, 2671627408, 3449030450, 1739681603, 2277896623, 3270938503,
      1561552060, 297879525, 47090771],
     [1379943239, 3627200175, 232867898, 724883014, 802970649, 1975382017, 696670714,
      3605209718, 1675492409, 4129398869, 2913714558, 2195060389, 1212950122,
      1201756260, 1225006089, 2623418647],
     [2330621110, 725723487, 352613792, 444664748, 1842817813, 2422651077, 2913958208,
      1954863839, 802761356, 1449523351, 3721975237, 2534001145, 1114448071,
      3225355132, 3934737595, 223425115],
     [3529506986, 1760865479, 40188522, 2603123037, 1174251974, 3248806056,
      3067162928, 2783567401, 565962982, 727314584, 577465451, 729638357, 1756852367,
      319865279, 3880461413, 1489912854],
     [3024668821, 3768026094, 3794721154, 2396533822, 3227429936, 3298960199,
      2353609797, 35240500, 671269127, 966270810, 1625620270, 3383969294, 2225037976,
      389126923, 2721596152, 3448299389],
     [634261060, 763810925, 4258183225, 2128550576, 2461273110, 3685453432,
      3614958865, 847438788, 1635254736, 2350433101, 2176705398, 2478672863,
      4231134127, 1235358859, 2256845088, 127193218],
     [2874919565, 1134686168, 1437625102, 2876268129, 907445504, 3543879386,
      992113281, 2763600817, 402249738, 3765404532, 1068631620, 3087444705,
      1471361741, 2409764189, 4239815375, 3659806617]]"

definition seed_tank :: "bool list" where
  "seed_tank =
    [False, True, True, False, True, True, True, True, False, False, True, True, False,
     False, False, True, False, True, False, False, True, False, False, True, True,
     False, True, True, False, False, True, True, True, True, True, True, False, True,
     True, False, True, False, True, False, True, True, False, True, False, True, True,
     True, True, True, False, False, True, False, True, True, True, True, True, False,
     True, True, False, True, False, False, False, False, False, True, False, False,
     True, True, False, True, True, True, True, True, True, False, True, True, False,
     True, True, False, False, True, True, False, False, True, True, True, True, True,
     False, True, True, True, False, True, False, True, True, False, False, False, False,
     False, False, True, False, True, True, False, True, True, False, False, True, True,
     False, False, False, False, False, False, False, False, False, True, True, False,
     False, False, False, False, True, True, False, True, True, False, False, False,
     False, False, True, False, False, True, False, False, True, True, False, False,
     True, False, False, True, False, False, True, False, True, True, True, False, False,
     True, False, False, True, False, True, True, True, False, True, True, True, False,
     False, True, True, False, False, False, False, False, False, False, True, True,
     False, False, False, True, False, True, True, True, False, False, False, False,
     True, True, True, False, True, True, False, True, False, False, False, True, True,
     True, True, False, True, True, False, True, False, False, False, True, False, False,
     False, True, True, True, False, True, False, False, True, True, True, False, False,
     False, True, True]"

definition seeded :: SparkleRG where
  "seeded =
     \<lparr>core = \<lparr>steps = 8, state = seed_trail ! 17, entropy_tank = seed_tank,
               entropy_cursor = 0\<rparr>\<rparr>"

lemma seed_round_a0: "permute_round 0 (seed_trail ! 0) = seed_trail ! 1"
  by code_simp

lemma seed_round_a1: "permute_round 1 (seed_trail ! 1) = seed_trail ! 2"
  by code_simp

lemma seed_round_a2: "permute_round 2 (seed_trail ! 2) = seed_trail ! 3"
  by code_simp

lemma seed_round_a3: "permute_round 3 (seed_trail ! 3) = seed_trail ! 4"
  by code_simp

lemma seed_round_a4: "permute_round 4 (seed_trail ! 4) = seed_trail ! 5"
  by code_simp

lemma seed_round_a5: "permute_round 5 (seed_trail ! 5) = seed_trail ! 6"
  by code_simp

lemma seed_round_a6: "permute_round 6 (seed_trail ! 6) = seed_trail ! 7"
  by code_simp

lemma seed_round_a7: "permute_round 7 (seed_trail ! 7) = seed_trail ! 8"
  by code_simp

lemma seed_round_b0: "permute_round 0 (seed_trail ! 9) = seed_trail ! 10"
  by code_simp

lemma seed_round_b1: "permute_round 1 (seed_trail ! 10) = seed_trail ! 11"
  by code_simp

lemma seed_round_b2: "permute_round 2 (seed_trail ! 11) = seed_trail ! 12"
  by code_simp

lemma seed_round_b3: "permute_round 3 (seed_trail ! 12) = seed_trail ! 13"
  by code_simp

lemma seed_round_b4: "permute_round 4 (seed_trail ! 13) = seed_trail ! 14"
  by code_simp

lemma seed_round_b5: "permute_round 5 (seed_trail ! 14) = seed_trail ! 15"
  by code_simp

lemma seed_round_b6: "permute_round 6 (seed_trail ! 15) = seed_trail ! 16"
  by code_simp

lemma seed_round_b7: "permute_round 7 (seed_trail ! 16) = seed_trail ! 17"
  by code_simp

lemma seed_permute_a: "permute_loop 8 0 (seed_trail ! 0) = seed_trail ! 8"
  by (simp add: permute_loop.simps seed_round_a0 seed_round_a1 seed_round_a2 seed_round_a3
      seed_round_a4 seed_round_a5 seed_round_a6 seed_round_a7 del: One_nat_def)

lemma seed_permute_b: "permute_loop 8 0 (seed_trail ! 9) = seed_trail ! 17"
  by (simp add: permute_loop.simps seed_round_b0 seed_round_b1 seed_round_b2 seed_round_b3
      seed_round_b4 seed_round_b5 seed_round_b6 seed_round_b7 del: One_nat_def)

lemma seed_fold:
  "absorb_loop (seed_block @ replicate (48 - length seed_block) 0) 0
     (state (xor_last 1 (core (SparkleRG_init 8 256)))) = Inr (seed_trail ! 0)"
  by code_simp

lemma seed_constant_2:
  "(seed_trail ! 8)[2 * N_BRANCHES - 1 := seed_trail ! 8 ! (2 * N_BRANCHES - 1) XOR 2]
     = seed_trail ! 9"
  by code_simp

lemma seed_squeeze: "map (tank_unit (seed_trail ! 17)) [0..<256] = seed_tank"
  by code_simp

lemma seed_absorbed: "SparkleRG_absorb seed_block (SparkleRG_init 8 256) = Returned () seeded"
proof -
  let ?c0 = "core (SparkleRG_init 8 256)"
  let ?c1 = "xor_last 1 ?c0"
  let ?bs = "seed_block @ replicate (48 - length seed_block) 0"
  have c1: "?c1 = \<lparr>steps = 8, state = state ?c1, entropy_tank = replicate 256 False,
                   entropy_cursor = 0\<rparr>"
    by (simp add: xor_last_def init_core)
  have a: "absorb ?bs ?c0 = squeeze (permute (xor_last 2 (permute (?c1\<lparr>state := seed_trail ! 0\<rparr>))))"
    by (simp only: absorb_def Let_def seed_fold sum.case)
  have p1: "permute (?c1\<lparr>state := seed_trail ! 0\<rparr>) = ?c1\<lparr>state := seed_trail ! 8\<rparr>"
    by (subst (1 2) c1) (simp add: permute_def seed_permute_a)
  have x2: "xor_last 2 (?c1\<lparr>state := seed_trail ! 8\<rparr>) = ?c1\<lparr>state := seed_trail ! 9\<rparr>"
    by (simp add: xor_last_def [of 2] seed_constant_2 del: One_nat_def)
  have p2: "permute (?c1\<lparr>state := seed_trail ! 9\<rparr>) = ?c1\<lparr>state := seed_trail ! 17\<rparr>"
    by (subst (1 2) c1) (simp add: permute_def seed_permute_b)
  have t: "entropy_tank (?c1\<lparr>state := seed_trail ! 17\<rparr>) = replicate 256 False"
    by (subst c1) simp
  have "squeeze (?c1\<lparr>state := seed_trail ! 17\<rparr>) =
      Inr (?c1\<lparr>state := seed_trail ! 17, entropy_tank := seed_tank, entropy_cursor := 0\<rparr>)"
    using squeeze_result [of "?c1\<lparr>state := seed_trail ! 17\<rparr>"] t
    by (simp add: seed_squeeze)
  moreover have "?c1\<lparr>state := seed_trail ! 17, entropy_tank := seed_tank, entropy_cursor := 0\<rparr>
      = core seeded"
    by (subst c1) (simp add: seeded_def)
  ultimately have "absorb ?bs ?c0 = Inr (core seeded)"
    by (simp only: a p1 x2 p2)
  then show ?thesis
    by (simp add: SparkleRG_absorb_def seeded_def)
qed

lemma seeded_bits_32:
  "SparkleRG_get_n_bit_unsigned_integer 32 seeded =
     Returned 18446744072863517942 (seeded\<lparr>core := (core seeded)\<lparr>entropy_cursor := 32\<rparr>\<rparr>)"
  by code_simp

lemma seeded_uniform_32:
  "SparkleRG_call 0 4294967296 seeded =
     Some (Returned 431230327 (seeded\<lparr>core := (core seeded)\<lparr>entropy_cursor := 132\<rparr>\<rparr>))"
  by code_simp

section \<open>Values in range\<close>

lemma uint_word_of_int_64:
  assumes "0 \<le> k" "k < 2 ^ 64"
  shows "uint (word_of_int k :: 64 word) = k"
  using assms by (simp add: uint_word_of_int_eq take_bit_int_eq_self)

text \<open>
  Claim C4. Whenever a call \<^verbatim>\<open>(lower, upper)\<close> returns a value \<open>v\<close>, then
  \<open>lower \<le> v < upper\<close>, and \<open>v = lower + d\<close> where \<open>d\<close> is the first draw of
  \<open>bit_length\<close> bits that is below \<open>upper - lower\<close>: every earlier draw was rejected
  because it was not. This holds for every range, also for those of \<open>2^32\<close> and more,
  whose draws take 33 to 64 bits.
\<close>

theorem uniform_in_range:
  assumes "SparkleRG_call lower upper g = Some (Returned v g')"
  shows "lower \<le> v \<and> v < upper
     \<and> (\<exists>bl k d. bit_length (word_of_int lower) (word_of_int upper) = Inr bl
           \<and> nth_draw bl k (core g) = Inr (d, core g')
           \<and> v = lower + uint d \<and> uint d < upper - lower
           \<and> (\<forall>j < k. \<exists>dj cj. nth_draw bl j (core g) = Inr (dj, cj) \<and> upper - lower \<le> uint dj))"
proof -
  let ?lo = "word_of_int lower :: 64 word" and ?up = "word_of_int upper :: 64 word"
  have ord: "lower < upper"
    using assms by (auto simp: SparkleRG_call_def split: if_splits)
  have rng: "0 \<le> lower" "upper < 2 ^ 64"
    using assms by (auto simp: SparkleRG_call_def split: if_splits)
  obtain w c where core: "get_unsigned_integer_in_range ?lo ?up (core g) = Some (Inr (w, c))"
      and v: "v = uint w" and g': "g' = g\<lparr>core := c\<rparr>"
    using assms ord rng
    by (auto simp: SparkleRG_call_def split: if_splits option.splits sum.splits)
  obtain bl where bl: "bit_length ?lo ?up = Inr bl"
    using core by (cases "bit_length ?lo ?up") (simp_all add: get_unsigned_integer_in_range_def)
  obtain d where loop: "rejection_loop bl (?up - ?lo) (core g) = Some (Inr (d, c))"
      and w: "w = ?lo + d"
    using core
    by (auto simp: get_unsigned_integer_in_range_unfold [OF bl] split: option.splits sum.splits)
  have "first_accepted bl (?up - ?lo) (core g) (Inr (d, c))"
    using loop by (rule rejection_loop_first_accepted)
  then obtain k where k: "nth_draw bl k (core g) = Inr (d, c)" "d < ?up - ?lo"
      "\<forall>j < k. \<exists>dj cj. nth_draw bl j (core g) = Inr (dj, cj) \<and> ?up - ?lo \<le> dj"
    unfolding first_accepted_def by blast
  have "?up - ?lo = word_of_int (upper - lower)"
    by simp
  then have width: "uint (?up - ?lo) = upper - lower"
    using ord rng by (simp only: uint_word_of_int_64)
  have d: "uint d < upper - lower"
    using k(2) width by (simp add: word_less_def)
  have "?lo + d = word_of_int (lower + uint d)"
    by simp
  moreover have "0 \<le> lower + uint d" "lower + uint d < 2 ^ 64"
    using rng d by simp_all
  ultimately have sum: "uint (?lo + d) = lower + uint d"
    by (simp only: uint_word_of_int_64)
  have earlier: "\<exists>dj cj. nth_draw bl j (core g) = Inr (dj, cj) \<and> upper - lower \<le> uint dj"
    if jk: "j < k" for j
  proof -
    obtain dj cj where "nth_draw bl j (core g) = Inr (dj, cj)" "?up - ?lo \<le> dj"
      using k(3) jk by blast
    then show ?thesis
      using width by (auto simp: word_le_def)
  qed
  have "lower \<le> v" "v < upper" "v = lower + uint d"
    using v w sum d by simp_all
  moreover have "nth_draw bl k (core g) = Inr (d, core g')"
    using k(1) g' by simp
  ultimately show ?thesis
    using bl d earlier by blast
qed

theorem uniform_in_range_witness:
  "SparkleRG_call 0 4294967296 seeded =
     Some (Returned 431230327 (seeded\<lparr>core := (core seeded)\<lparr>entropy_cursor := 132\<rparr>\<rparr>))
   \<and> (0 :: int) \<le> 431230327 \<and> (431230327 :: int) < 4294967296"
  using uniform_in_range [OF seeded_uniform_32] seeded_uniform_32 by simp

section \<open>The accumulator of a draw\<close>

text \<open>
  Claim C3 says that \<^verbatim>\<open>get_n_bit_unsigned_integer(n)\<close> returns an accumulator whose
  bit \<open>i\<close> is the \<open>i\<close>-th consumed tank bit for \<open>i < n\<close>, and whose bits from \<open>n\<close> on
  are zero. The code shifts the \<^verbatim>\<open>int\<close> literal \<^verbatim>\<open>1\<close>, so a 1 in the 32nd consumed
  bit sets every bit from 31 to 63. After \<^verbatim>\<open>SparkleRG(8, 256)\<close> and
  \<^verbatim>\<open>absorb(b"seed")\<close> the tank bit 31 is set, and the first draw of 32 bits is
  \<^verbatim>\<open>0xFFFFFFFFCD928CF6\<close>: the 32 consumed bits are \<^verbatim>\<open>0xCD928CF6\<close>, and the bits
  32 to 63 are set as well.
\<close>

theorem draw_of_32_bits_after_seed:
  "SparkleRG_absorb seed_block (SparkleRG_init 8 256) = Returned () seeded
   \<and> entropy_tank (core seeded) ! 31
   \<and> SparkleRG_get_n_bit_unsigned_integer 32 seeded =
       Returned 18446744072863517942 (seeded\<lparr>core := (core seeded)\<lparr>entropy_cursor := 32\<rparr>\<rparr>)
   \<and> (18446744072863517942 :: int) = 3448933622 + (2 ^ 64 - 2 ^ 32)
   \<and> (2 :: int) ^ 32 \<le> 18446744072863517942"
proof -
  have "entropy_tank (core seeded) ! 31"
    by code_simp
  then show ?thesis
    using seed_absorbed seeded_bits_32 by simp
qed

section \<open>Determinism\<close>



end
